theory Spec2Isabelle
  imports
    Main
    "HOL-Library.AList"
    "HOL-Library.Char_ord"
    "HOL-Library.List_Lexorder"
    "HOL-Library.Multiset"
begin

chapter \<open>gr: a shallow embedding of the fingerprint computation and the cache store\<close>

text \<open>
  The theory models, function by function, the Go sources of \<^verbatim>\<open>gr\<close>:
  the checksum computation (module location, \<^verbatim>\<open>go.mod\<close> parsing, import
  resolution, the source walk, the embed resolver, the aggregation) and the cache
  store of \<^verbatim>\<open>build.go\<close>.  A Go \<^verbatim>\<open>string\<close> is a list of bytes
  (\<^typ>\<open>string\<close>); a Go \<^verbatim>\<open>map[string]T\<close> is an association list with
  distinct keys whose list order stands for one possible iteration order; an
  \<^verbatim>\<open>error\<close> return, a \<^verbatim>\<open>panic\<close> and a loop that does not come back
  are values of the result type.
\<close>

section \<open>Standard-library functions the code calls\<close>

text \<open>The byte \<^verbatim>\<open>"\<close> (0x22), the back quote (0x60) and the backslash (0x5C).\<close>

definition dquote :: char where
  "dquote = CHR 0x22"

definition bquote :: char where
  "bquote = CHR 0x60"

definition bslash :: char where
  "bslash = CHR 0x5C"

text \<open>\<^verbatim>\<open>strings.HasPrefix\<close>, \<^verbatim>\<open>strings.HasSuffix\<close>, \<^verbatim>\<open>strings.TrimPrefix\<close>,
  \<^verbatim>\<open>strings.TrimSuffix\<close>, \<^verbatim>\<open>strings.CutPrefix\<close>.\<close>

definition hasPrefix :: "string \<Rightarrow> string \<Rightarrow> bool" where
  "hasPrefix s p = (length p \<le> length s \<and> take (length p) s = p)"

definition hasSuffix :: "string \<Rightarrow> string \<Rightarrow> bool" where
  "hasSuffix s p = (length p \<le> length s \<and> drop (length s - length p) s = p)"

definition trimPrefix :: "string \<Rightarrow> string \<Rightarrow> string" where
  "trimPrefix s p = (if hasPrefix s p then drop (length p) s else s)"

definition trimSuffix :: "string \<Rightarrow> string \<Rightarrow> string" where
  "trimSuffix s p = (if hasSuffix s p then take (length s - length p) s else s)"

definition cutPrefix :: "string \<Rightarrow> string \<Rightarrow> string \<times> bool" where
  "cutPrefix s p = (if hasPrefix s p then (drop (length p) s, True) else (s, False))"

text \<open>\<^verbatim>\<open>strings.Split\<close> at a one-byte separator and \<^verbatim>\<open>strings.Join\<close>.\<close>

fun splitOn :: "char \<Rightarrow> string \<Rightarrow> string list" where
  "splitOn c [] = [[]]"
| "splitOn c (x # xs) =
     (if x = c then [] # splitOn c xs
      else (case splitOn c xs of [] \<Rightarrow> [[x]] | w # ws \<Rightarrow> (x # w) # ws))"

fun joinWith :: "string \<Rightarrow> string list \<Rightarrow> string" where
  "joinWith sep [] = []"
| "joinWith sep [x] = x"
| "joinWith sep (x # y # ys) = x @ sep @ joinWith sep (y # ys)"

text \<open>
  \<^verbatim>\<open>filepath.Clean\<close> on Unix, element by element: empty elements and \<^verbatim>\<open>.\<close>
  are dropped, \<^verbatim>\<open>..\<close> removes the element before it, is dropped at the root of
  a rooted path and is kept at the front of a relative one.  The third argument is
  the output so far, last element first.
\<close>

fun cleanElems :: "bool \<Rightarrow> string list \<Rightarrow> string list \<Rightarrow> string list" where
  "cleanElems rooted [] out = rev out"
| "cleanElems rooted (e # es) out =
     (if e = [] \<or> e = ''.'' then cleanElems rooted es out
      else if e = ''..'' then
        (case out of
           [] \<Rightarrow> if rooted then cleanElems rooted es [] else cleanElems rooted es [e]
         | t # ts \<Rightarrow> if t = ''..'' then cleanElems rooted es (e # out)
                     else cleanElems rooted es ts)
      else cleanElems rooted es (e # out))"

definition isRooted :: "string \<Rightarrow> bool" where
  "isRooted p = (case p of [] \<Rightarrow> False | c # _ \<Rightarrow> c = CHR ''/'')"

definition filepath_Clean :: "string \<Rightarrow> string" where
  "filepath_Clean p =
     (if p = [] then ''.''
      else let out = (if isRooted p then ''/'' else []) @
                     joinWith ''/'' (cleanElems (isRooted p) (splitOn (CHR ''/'') p) [])
           in if out = [] then ''.'' else out)"

text \<open>\<^verbatim>\<open>filepath.Join\<close>: leading empty elements are skipped, the rest is joined
  with slashes and cleaned; all elements empty gives the empty string.\<close>

fun filepath_Join :: "string list \<Rightarrow> string" where
  "filepath_Join [] = []"
| "filepath_Join (e # es) =
     (if e = [] then filepath_Join es else filepath_Clean (joinWith ''/'' (e # es)))"

declare filepath_Join.simps [simp del]

text \<open>\<^verbatim>\<open>filepath.Dir\<close>: everything up to and including the last slash, cleaned.\<close>

definition filepath_Dir :: "string \<Rightarrow> string" where
  "filepath_Dir p = filepath_Clean (rev (dropWhile (\<lambda>c. c \<noteq> CHR ''/'') (rev p)))"

text \<open>\<^verbatim>\<open>filepath.Base\<close>: the last element, trailing slashes removed first.\<close>

definition filepath_Base :: "string \<Rightarrow> string" where
  "filepath_Base p =
     (if p = [] then ''.''
      else let q = rev (dropWhile (\<lambda>c. c = CHR ''/'') (rev p));
               b = rev (takeWhile (\<lambda>c. c \<noteq> CHR ''/'') (rev q))
           in if b = [] then ''/'' else b)"

text \<open>\<^verbatim>\<open>unicode.IsSpace\<close> on the bytes below 0x80 and \<^verbatim>\<open>strings.TrimSpace\<close>
  with it (exact on text whose white space is ASCII).\<close>

definition isSpace :: "char \<Rightarrow> bool" where
  "isSpace c = (c = CHR '' '' \<or> c = CHR 0x09 \<or> c = CHR 0x0A \<or> c = CHR 0x0B \<or>
                c = CHR 0x0C \<or> c = CHR 0x0D)"

definition trimSpace :: "string \<Rightarrow> string" where
  "trimSpace s = rev (dropWhile isSpace (rev (dropWhile isSpace s)))"

section \<open>Results, errors and the world outside the program\<close>

text \<open>
  A call of the program returns a value, returns an \<^verbatim>\<open>error\<close>, panics, or is
  still running when the fuel given to the model is used up.  Every caller in the
  fingerprint computation hands an error on to its own caller, so a failed call keeps
  no state.
\<close>

datatype oserr = ENOENT | EOTHER

datatype error =
    OsError oserr
  | ModfileError
  | NoGoMod string
  | GoParseError string
  | OutsideEveryModule string
  | EmbedCommentError string
  | EmbedError string
  | CacheError string

datatype panic = ChecksumTwice string | NilModule

datatype 'a result = Return 'a | Fail error | Panic panic | OutOfFuel

fun bind :: "'a result \<Rightarrow> ('a \<Rightarrow> 'b result) \<Rightarrow> 'b result" where
  "bind (Return x) f = f x"
| "bind (Fail e) f = Fail e"
| "bind (Panic p) f = Panic p"
| "bind OutOfFuel f = OutOfFuel"

text \<open>
  The file system is a tree without symbolic links, read but never written by the
  fingerprint computation.  A path is looked up element by element after lexical
  normalisation; a relative path is taken from the root.  \<^verbatim>\<open>os.IsNotExist\<close> holds
  of \<open>ENOENT\<close> only.
\<close>

datatype node = File string | Dir "(string \<times> node) list" | Special

datatype fmode = ModeRegular | ModeDir | ModeIrregular

fun modeOf :: "node \<Rightarrow> fmode" where
  "modeOf (File _) = ModeRegular"
| "modeOf (Dir _) = ModeDir"
| "modeOf Special = ModeIrregular"

fun child :: "node \<Rightarrow> string \<Rightarrow> oserr + node" where
  "child (Dir cs) name = (case map_of cs name of None \<Rightarrow> Inl ENOENT | Some n \<Rightarrow> Inr n)"
| "child _ name = Inl EOTHER"

fun descend :: "node \<Rightarrow> string list \<Rightarrow> oserr + node" where
  "descend n [] = Inr n"
| "descend n (e # es) = (case child n e of Inl x \<Rightarrow> Inl x | Inr m \<Rightarrow> descend m es)"

definition fs_lookup :: "node \<Rightarrow> string \<Rightarrow> oserr + node" where
  "fs_lookup root p =
     (if p = [] then Inl ENOENT
      else descend root (cleanElems True (splitOn (CHR ''/'') p) []))"

text \<open>\<^verbatim>\<open>os.Stat\<close> and \<^verbatim>\<open>os.Lstat\<close> (the same without links), \<^verbatim>\<open>os.ReadFile\<close>
  (also \<^verbatim>\<open>os.Open\<close> followed by \<^verbatim>\<open>io.Copy\<close>) and \<^verbatim>\<open>os.ReadDir\<close>, which lists
  a directory sorted by file name.\<close>

definition os_Stat :: "node \<Rightarrow> string \<Rightarrow> oserr + fmode" where
  "os_Stat root p = (case fs_lookup root p of Inl e \<Rightarrow> Inl e | Inr n \<Rightarrow> Inr (modeOf n))"

definition os_ReadFile :: "node \<Rightarrow> string \<Rightarrow> oserr + string" where
  "os_ReadFile root p =
     (case fs_lookup root p of
        Inl e \<Rightarrow> Inl e
      | Inr (File bytes) \<Rightarrow> Inr bytes
      | Inr _ \<Rightarrow> Inl EOTHER)"

definition dirEntries :: "(string \<times> node) list \<Rightarrow> (string \<times> node) list" where
  "dirEntries cs = sort_key fst cs"

definition os_ReadDir :: "node \<Rightarrow> string \<Rightarrow> oserr + (string \<times> fmode) list" where
  "os_ReadDir root p =
     (case fs_lookup root p of
        Inl e \<Rightarrow> Inl e
      | Inr (Dir cs) \<Rightarrow> Inr (map (\<lambda>(name, n). (name, modeOf n)) (dirEntries cs))
      | Inr _ \<Rightarrow> Inl EOTHER)"

text \<open>
  What \<^verbatim>\<open>modfile.Parse\<close> returns, as far as the code reads it: the module path
  (\<^verbatim>\<open>f.Module\<close> is nil when the file has no module directive), the paths of the
  \<^verbatim>\<open>require\<close> directives, and old path, new path and new version of the
  \<^verbatim>\<open>replace\<close> directives.  Of a parsed Go file the code reads the import
  literals (quotes included) and the texts of the comments, group by group.
\<close>

record modfile =
  mf_Module :: "string option"
  mf_Require :: "string list"
  mf_Replace :: "(string \<times> string \<times> string) list"

record gofile =
  gf_Imports :: "string list"
  gf_Comments :: "string list list"

text \<open>
  The collaborators that are not part of the repository are parameters of the model:
  SHA-256 with hex encoding, the two parsers, \<^verbatim>\<open>filepath.Glob\<close> on the file system
  at hand (\<open>None\<close> for a bad pattern), the syntax check \<^verbatim>\<open>path.Match(glob, "")\<close>,
  \<^verbatim>\<open>fs.ValidPath\<close>, \<^verbatim>\<open>module.CheckFilePath\<close> and \<^verbatim>\<open>strconv.Unquote\<close>.
\<close>

record externals =
  sha256hex :: "string \<Rightarrow> string"
  modfile_Parse :: "string \<Rightarrow> modfile option"
  parser_ParseFile :: "string \<Rightarrow> gofile option"
  filepath_Glob :: "string \<Rightarrow> string list option"
  path_Match_ok :: "string \<Rightarrow> bool"
  fs_ValidPath :: "string \<Rightarrow> bool"
  module_CheckFilePath_ok :: "string \<Rightarrow> bool"
  strconv_Unquote :: "string \<Rightarrow> string option"

section \<open>Modules and import resolution\<close>

text \<open>\<^verbatim>\<open>moduleInfo\<close> and \<^verbatim>\<open>parseContext\<close>.  In \<open>mi_packages\<close> a remote import is
  marked by the empty directory.\<close>

record moduleInfo =
  mi_path :: string
  mi_packages :: "(string \<times> string) list"

record parseContext =
  checksums :: "(string \<times> string) list"
  pc_packages :: "(string \<times> bool) list"
  modules :: "(string \<times> moduleInfo) list"

definition addChecksum :: "externals \<Rightarrow> node \<Rightarrow> parseContext \<Rightarrow> string \<Rightarrow> parseContext result" where
  "addChecksum X root pc filename =
     (case map_of (checksums pc) filename of
        Some _ \<Rightarrow> Panic (ChecksumTwice filename)
      | None \<Rightarrow>
          (case os_ReadFile root filename of
             Inl e \<Rightarrow> Fail (OsError e)
           | Inr bytes \<Rightarrow>
               Return (pc\<lparr>checksums := AList.update filename (sha256hex X bytes) (checksums pc)\<rparr>)))"

definition stripPackageQuotes :: "string \<Rightarrow> string" where
  "stripPackageQuotes p = trimPrefix (trimSuffix p [dquote]) [dquote]"

text \<open>The body of the loop over \<^verbatim>\<open>f.Replace\<close> in \<^verbatim>\<open>parseModule\<close>.\<close>

fun recordReplace :: "string \<Rightarrow> string \<times> string \<times> string \<Rightarrow> (string \<times> string) list \<Rightarrow> (string \<times> string) list" where
  "recordReplace dir (oldPath, newPath, newVersion) pkgs =
     (if newVersion \<noteq> [] then pkgs
      else if hasPrefix newPath ''/'' then AList.update (stripPackageQuotes oldPath) newPath pkgs
      else AList.update (stripPackageQuotes oldPath) (filepath_Join [dir, newPath]) pkgs)"

definition modulePackages :: "string \<Rightarrow> string \<Rightarrow> modfile \<Rightarrow> (string \<times> string) list" where
  "modulePackages dir modPath f =
     fold (recordReplace dir) (mf_Replace f)
       (fold (\<lambda>r pkgs. AList.update r [] pkgs) (mf_Require f) [(modPath, dir)])"

definition parseModule :: "externals \<Rightarrow> node \<Rightarrow> parseContext \<Rightarrow> string \<Rightarrow> (moduleInfo \<times> parseContext) result" where
  "parseModule X root pc dir =
     (case os_ReadFile root (filepath_Join [dir, ''go.mod'']) of
        Inl e \<Rightarrow> Fail (OsError e)
      | Inr contents \<Rightarrow>
          (case modfile_Parse X contents of
             None \<Rightarrow> Fail ModfileError
           | Some f \<Rightarrow>
               (case mf_Module f of
                  None \<Rightarrow> Panic NilModule
                | Some modPath \<Rightarrow>
                    let out = \<lparr>mi_path = modPath, mi_packages = modulePackages dir modPath f\<rparr> in
                    bind (addChecksum X root pc (filepath_Join [dir, ''go.mod''])) (\<lambda>pc1.
                      (case addChecksum X root pc1 (filepath_Join [dir, ''go.sum'']) of
                         Return pc2 \<Rightarrow> Return (out, pc2)
                       | Fail (OsError ENOENT) \<Rightarrow> Return (out, pc1)
                       | Fail e \<Rightarrow> Fail e
                       | Panic p \<Rightarrow> Panic p
                       | OutOfFuel \<Rightarrow> OutOfFuel)))))"

text \<open>\<^verbatim>\<open>findModule\<close>: the loop climbs from \<open>dir\<close>; the directories passed on the way
  are entered into the cache once the module is known.\<close>

definition backfill :: "string list \<Rightarrow> moduleInfo \<Rightarrow> parseContext \<Rightarrow> parseContext" where
  "backfill uncachedDirs info pc =
     pc\<lparr>modules := fold (\<lambda>d m. AList.update d info m) uncachedDirs (modules pc)\<rparr>"

fun findModuleLoop :: "nat \<Rightarrow> externals \<Rightarrow> node \<Rightarrow> parseContext \<Rightarrow> string \<Rightarrow> string \<Rightarrow> string list
    \<Rightarrow> (moduleInfo \<times> parseContext) result" where
  "findModuleLoop 0 X root pc origDir dir uncachedDirs = OutOfFuel"
| "findModuleLoop (Suc n) X root pc origDir dir uncachedDirs =
     (case map_of (modules pc) dir of
        Some info \<Rightarrow> Return (info, backfill uncachedDirs info pc)
      | None \<Rightarrow>
          (case os_Stat root (filepath_Join [dir, ''go.mod'']) of
             Inl EOTHER \<Rightarrow> Fail (OsError EOTHER)
           | Inr _ \<Rightarrow>
               bind (parseModule X root pc dir) (\<lambda>(info, pc1).
                 Return (info, backfill (uncachedDirs @ [dir]) info pc1))
           | Inl ENOENT \<Rightarrow>
               if filepath_Dir dir = ''/'' then Fail (NoGoMod origDir)
               else findModuleLoop n X root pc origDir (filepath_Dir dir) (uncachedDirs @ [dir])))"

definition findModule :: "nat \<Rightarrow> externals \<Rightarrow> node \<Rightarrow> parseContext \<Rightarrow> string
    \<Rightarrow> (moduleInfo \<times> parseContext) result" where
  "findModule n X root pc dir = findModuleLoop n X root pc dir dir []"

definition packageInsideOf :: "string \<Rightarrow> string \<Rightarrow> bool" where
  "packageInsideOf p base = (base = p \<or> hasPrefix p (base @ ''/''))"

definition dirForPackageInModule :: "string \<Rightarrow> string \<Rightarrow> string \<Rightarrow> string" where
  "dirForPackageInModule modulePath moduleDir importPath =
     (if modulePath = importPath then moduleDir
      else filepath_Join [moduleDir, trimPrefix importPath (modulePath @ ''/'')])"

text \<open>The loop over \<^verbatim>\<open>moduleInfo.packages\<close> in \<^verbatim>\<open>resolveImport\<close>; the pair is
  \<^verbatim>\<open>longestMatchedPath\<close> and \<^verbatim>\<open>longestMatchedPathDir\<close>, both empty at the start.\<close>

fun longestMatch :: "string \<Rightarrow> (string \<times> string) list \<Rightarrow> string \<times> string \<Rightarrow> string \<times> string" where
  "longestMatch importPath [] best = best"
| "longestMatch importPath ((modulePackagePath, modulePackageDir) # rest) (longestMatchedPath, longestMatchedPathDir) =
     (if packageInsideOf importPath modulePackagePath \<and> length modulePackagePath > length longestMatchedPath
      then longestMatch importPath rest (modulePackagePath, modulePackageDir)
      else longestMatch importPath rest (longestMatchedPath, longestMatchedPathDir))"

text \<open>One pass of the loop of \<^verbatim>\<open>resolveImport\<close> once the module is found: the three
  ways out, or the directory from which the next pass starts.\<close>

datatype resolved = Outside | Remote | Local string | Elsewhere string

definition resolveInModule :: "moduleInfo \<Rightarrow> string \<Rightarrow> resolved" where
  "resolveInModule info importPath =
     (case longestMatch importPath (mi_packages info) ([], []) of
        (longestMatchedPath, longestMatchedPathDir) \<Rightarrow>
          if longestMatchedPath = [] then Outside
          else if longestMatchedPathDir = [] then Remote
          else if longestMatchedPath = mi_path info
            then Local (dirForPackageInModule longestMatchedPath longestMatchedPathDir importPath)
          else Elsewhere longestMatchedPathDir)"

fun resolveImport :: "nat \<Rightarrow> externals \<Rightarrow> node \<Rightarrow> parseContext \<Rightarrow> string \<Rightarrow> string
    \<Rightarrow> ((string \<times> bool) \<times> parseContext) result" where
  "resolveImport 0 X root pc dir importPath = OutOfFuel"
| "resolveImport (Suc n) X root pc dir importPath =
     bind (findModule (Suc n) X root pc dir) (\<lambda>(info, pc1).
       (case resolveInModule info importPath of
          Outside \<Rightarrow> Fail (OutsideEveryModule importPath)
        | Remote \<Rightarrow> Return (([], False), pc1)
        | Local d \<Rightarrow> Return ((d, True), pc1)
        | Elsewhere d \<Rightarrow> resolveImport n X root pc1 d importPath))"

section \<open>Embed directives\<close>

text \<open>
  \<^verbatim>\<open>parseGoEmbed\<close>.  \<open>findClose\<close> is the inner loop of the double-quoted case: it
  looks at the bytes from index \<open>i\<close> on, steps over the byte after a backslash, and
  returns the index of the closing quote.  \<open>embedToken\<close> is the \<^verbatim>\<open>switch\<close> on the
  first byte: it yields the pattern and the text after it, or nothing where the code
  returns an error.
\<close>

fun findClose :: "string \<Rightarrow> nat \<Rightarrow> nat option" where
  "findClose [] i = None"
| "findClose [c] i = (if c = bslash then None else if c = dquote then Some i else None)"
| "findClose (c # d # cs) i =
     (if c = bslash then findClose cs (i + 2)
      else if c = dquote then Some i
      else findClose (d # cs) (i + 1))"

definition embedToken :: "externals \<Rightarrow> string \<Rightarrow> (string \<times> string) option" where
  "embedToken X args =
     (if hd args = bquote then
        (if bquote \<in> set (tl args)
         then Some (takeWhile (\<lambda>c. c \<noteq> bquote) (tl args),
                    tl (dropWhile (\<lambda>c. c \<noteq> bquote) (tl args)))
         else None)
      else if hd args = dquote then
        (case findClose (tl args) 1 of
           None \<Rightarrow> None
         | Some i \<Rightarrow>
             (case strconv_Unquote X (take (i + 1) args) of
                None \<Rightarrow> None
              | Some q \<Rightarrow> Some (q, drop (i + 1) args)))
      else Some (takeWhile (\<lambda>c. \<not> isSpace c) args, dropWhile (\<lambda>c. \<not> isSpace c) args))"

lemma length_trimSpace: "length (trimSpace s) \<le> length s"
proof -
  have "length (trimSpace s) \<le> length (dropWhile isSpace s)"
    unfolding trimSpace_def by (metis length_dropWhile_le length_rev)
  also have "\<dots> \<le> length s" by (rule length_dropWhile_le)
  finally show ?thesis .
qed

lemma hd_trimSpace: "trimSpace s \<noteq> [] \<Longrightarrow> \<not> isSpace (hd (trimSpace s))"
proof -
  assume ne: "trimSpace s \<noteq> []"
  let ?d = "dropWhile isSpace s"
  have "?d = [] \<Longrightarrow> trimSpace s = []"
    by (simp add: trimSpace_def del: dropWhile_eq_Nil_conv)
  with ne have dne: "?d \<noteq> []" by blast
  then have h: "\<not> isSpace (hd ?d)" by (simp add: hd_dropWhile)
  from dne obtain c cs where d: "?d = c # cs" by (cases ?d) auto
  with h have c: "\<not> isSpace c" by simp
  have "rev (dropWhile isSpace (rev (c # cs))) = c # rev (dropWhile isSpace (rev cs))"
    using c by (simp add: dropWhile_append)
  then show ?thesis using c d by (simp add: trimSpace_def)
qed

lemma findClose_bound: "findClose cs i = Some j \<Longrightarrow> i \<le> j"
  by (induction cs i rule: findClose.induct) (auto split: if_splits)

lemma embedToken_shorter:
  assumes "embedToken X args = Some (p, rest)" and "args \<noteq> []" and "\<not> isSpace (hd args)"
  shows "length rest < length args"
proof -
  from assms(2) obtain c cs where a: "args = c # cs" by (cases args) auto
  show ?thesis
  proof (cases "c = bquote")
    case True
    with assms(1) a have "rest = tl (dropWhile (\<lambda>c. c \<noteq> bquote) cs)"
      by (auto simp: embedToken_def split: if_splits)
    moreover have "length (tl (dropWhile (\<lambda>c. c \<noteq> bquote) cs)) \<le> length cs"
      by (metis diff_le_self le_trans length_dropWhile_le length_tl)
    ultimately show ?thesis using a by simp
  next
    case nb: False
    show ?thesis
    proof (cases "c = dquote")
      case True
      with nb assms(1) a obtain i where "findClose cs 1 = Some i" and "rest = drop (i + 1) (c # cs)"
        by (auto simp: embedToken_def split: option.splits)
      then show ?thesis using a by simp
    next
      case False
      with nb assms(1) a assms(3) have "rest = dropWhile (\<lambda>c. \<not> isSpace c) cs"
        by (auto simp: embedToken_def)
      moreover have "length (dropWhile (\<lambda>c. \<not> isSpace c) cs) \<le> length cs"
        by (rule length_dropWhile_le)
      ultimately show ?thesis using a by simp
    qed
  qed
qed

function parseGoEmbedLoop :: "externals \<Rightarrow> string \<Rightarrow> string list \<Rightarrow> string list option" where
  "parseGoEmbedLoop X args list =
     (if trimSpace args = [] then Some list
      else (case embedToken X (trimSpace args) of
              None \<Rightarrow> None
            | Some (p, rest) \<Rightarrow>
                if rest \<noteq> [] \<and> \<not> isSpace (hd rest) then None
                else parseGoEmbedLoop X rest (list @ [p])))"
  by pat_completeness auto
termination
proof (relation "measure (\<lambda>(X, args, list). length args)")
  show "wf (measure (\<lambda>(X, args, list). length args))" by simp
next
  fix X :: externals and args :: string and list :: "string list" and x2 :: "string \<times> string"
    and p rest :: string
  assume ne: "trimSpace args \<noteq> []" and tok: "embedToken X (trimSpace args) = Some x2"
    and x2: "(p, rest) = x2"
  from tok x2 have "embedToken X (trimSpace args) = Some (p, rest)" by simp
  from embedToken_shorter[OF this ne hd_trimSpace[OF ne]] length_trimSpace[of args]
  show "((X, rest, list @ [p]), X, args, list) \<in> measure (\<lambda>(X, args, list). length args)"
    by simp
qed

declare parseGoEmbedLoop.simps [simp del]

definition parseGoEmbed :: "externals \<Rightarrow> string \<Rightarrow> string list option" where
  "parseGoEmbed X args = parseGoEmbedLoop X args []"

text \<open>Helpers of \<^verbatim>\<open>resolveEmbed\<close> from \<^verbatim>\<open>embed.go\<close>, on Unix (no volume names,
  \<^verbatim>\<open>filepath.ToSlash\<close> and \<^verbatim>\<open>filepath.FromSlash\<close> are the identity).
  \<^verbatim>\<open>strQuoteGlob\<close> ranges over the runes of the directory name and writes each back;
  here it copies the bytes, which is the same for a name that is valid UTF-8 (for
  an invalid byte the code writes U+FFFD).\<close>

definition isBadEmbedName :: "externals \<Rightarrow> string \<Rightarrow> bool" where
  "isBadEmbedName X name =
     (\<not> module_CheckFilePath_ok X name \<or> name = [] \<or>
      List.member [''.bzr'', ''.hg'', ''.git'', ''.svn''] name)"

definition validEmbedPattern :: "externals \<Rightarrow> string \<Rightarrow> bool" where
  "validEmbedPattern X pattern = (pattern \<noteq> ''.'' \<and> fs_ValidPath X pattern)"

definition strQuoteGlob :: "string \<Rightarrow> string" where
  "strQuoteGlob s =
     (if \<not> list_ex (\<lambda>c. List.member ''*?[]'' c) s then s
      else concat (map (\<lambda>c. if List.member ''*?[]'' c then [bslash, c] else [c]) s))"

definition strWithFilePathSeparator :: "string \<Rightarrow> string" where
  "strWithFilePathSeparator s = (if s = [] \<or> last s = CHR ''/'' then s else s @ ''/'')"

definition strHasFilePathPrefix :: "string \<Rightarrow> string \<Rightarrow> bool" where
  "strHasFilePathPrefix s prefix =
     (if length s = length prefix then s = prefix
      else if prefix = [] then True
      else if length s > length prefix then
        (if last prefix = CHR ''/'' then hasPrefix s prefix
         else s ! length prefix = CHR ''/'' \<and> take (length prefix) s = prefix)
      else False)"

definition strTrimFilePathPrefix :: "string \<Rightarrow> string \<Rightarrow> string" where
  "strTrimFilePathPrefix s prefix =
     (if prefix = [] then s
      else if \<not> strHasFilePathPrefix s prefix then s
      else (case drop (length prefix) s of
              [] \<Rightarrow> []
            | c # cs \<Rightarrow> if c = CHR ''/'' then cs else c # cs))"

text \<open>Reading a \<^verbatim>\<open>map[string]int\<close> and a \<^verbatim>\<open>map[string]bool\<close>: a missing key
  reads as zero and as false.\<close>

definition lookupNat :: "(string \<times> nat) list \<Rightarrow> string \<Rightarrow> nat" where
  "lookupNat m k = (case map_of m k of None \<Rightarrow> 0 | Some v \<Rightarrow> v)"

definition lookupBool :: "(string \<times> bool) list \<Rightarrow> string \<Rightarrow> bool" where
  "lookupBool m k = (case map_of m k of None \<Rightarrow> False | Some b \<Rightarrow> b)"

text \<open>
  The variables that the loops of \<^verbatim>\<open>resolveEmbed\<close> and the walk function share:
  the map \<^verbatim>\<open>have\<close>, the \<^verbatim>\<open>list\<close> of the pattern at hand and the \<^verbatim>\<open>count\<close> of
  the directory at hand.  \<open>noteFile\<close> is the step
  \<^verbatim>\<open>if have[rel] != pid { have[rel] = pid; list = append(list, rel) }\<close>.
\<close>

record embedState =
  es_have :: "(string \<times> nat) list"
  es_list :: "string list"
  es_count :: nat

definition noteFile :: "string \<Rightarrow> nat \<Rightarrow> embedState \<Rightarrow> embedState" where
  "noteFile rel pid st =
     (if lookupNat (es_have st) rel \<noteq> pid
      then st\<lparr>es_have := AList.update rel pid (es_have st), es_list := es_list st @ [rel]\<rparr>
      else st)"

text \<open>
  The loop that checks that no directory between a match and the package directory
  begins a module, is a file, or has a bad name.  \<^verbatim>\<open>filepath.Dir\<close> shortens a path
  of two bytes or more, which is why the loop ends.
\<close>

definition weight :: "string list \<Rightarrow> nat" where
  "weight es = sum_list (map (\<lambda>e. Suc (length e)) es)"

lemma weight_simps [simp]:
  "weight [] = 0" "weight (e # es) = Suc (length e) + weight es"
  "weight (xs @ ys) = weight xs + weight ys" "weight (rev xs) = weight xs"
  by (simp_all add: weight_def rev_map[symmetric] del: rev_map)

lemma length_joinWith: "length (joinWith ''/'' es) = weight es - 1"
  by (induction "''/''" es rule: joinWith.induct) auto

lemma splitOn_nonempty: "splitOn c s \<noteq> []"
  by (induction s) (auto split: list.splits)

lemma weight_splitOn: "weight (splitOn c s) = Suc (length s)"
  by (induction s) (auto split: list.splits simp: splitOn_nonempty)

lemma splitOn_snoc: "splitOn c (s @ [c]) = splitOn c s @ [[]]"
  by (induction s) (auto split: list.splits simp: splitOn_nonempty)

lemma weight_filter_le: "weight (filter P es) \<le> weight es"
  by (induction es) auto

lemma weight_cleanElems:
  "weight (cleanElems r es out) \<le> weight (filter (\<lambda>e. e \<noteq> []) es) + weight out"
  by (induction r es out rule: cleanElems.induct) (auto split: list.splits)

lemma clean_slash: "filepath_Clean ''/'' = ''/''"
  by code_simp

lemma length_Clean_trailing:
  assumes "q = x @ ''/''" and "x \<noteq> []"
  shows "length (filepath_Clean q) < length q"
proof -
  let ?K = "cleanElems (isRooted q) (splitOn (CHR ''/'') q) []"
  have sp: "splitOn (CHR ''/'') q = splitOn (CHR ''/'') x @ [[]]"
    using assms(1) splitOn_snoc[of "CHR ''/''" x] by simp
  have K: "weight ?K \<le> weight (filter (\<lambda>e. e \<noteq> []) (splitOn (CHR ''/'') x))"
    using weight_cleanElems[of "isRooted q" "splitOn (CHR ''/'') q" "[]"] sp by simp
  show ?thesis
  proof (cases "isRooted q")
    case True
    with assms obtain y where x: "x = CHR ''/'' # y"
      by (cases x) (auto simp: isRooted_def)
    have "weight (filter (\<lambda>e. e \<noteq> []) (splitOn (CHR ''/'') x)) \<le> weight (splitOn (CHR ''/'') y)"
      using x weight_filter_le[of "\<lambda>e. e \<noteq> []" "splitOn (CHR ''/'') y"] by simp
    with K have "weight ?K \<le> Suc (length y)" by (simp add: weight_splitOn)
    then have "length (''/'' @ joinWith ''/'' ?K) \<le> Suc (length y)"
      by (simp add: length_joinWith)
    with True assms x show ?thesis
      by (simp add: filepath_Clean_def Let_def)
  next
    case False
    have "weight (filter (\<lambda>e. e \<noteq> []) (splitOn (CHR ''/'') x)) \<le> Suc (length x)"
      using weight_filter_le[of "\<lambda>e. e \<noteq> []" "splitOn (CHR ''/'') x"] by (simp add: weight_splitOn)
    with K have "weight ?K \<le> Suc (length x)" by simp
    then have "length (joinWith ''/'' ?K) \<le> length x"
      by (simp add: length_joinWith)
    with False assms show ?thesis
      by (cases x) (auto simp: filepath_Clean_def Let_def)
  qed
qed

lemma filepath_Dir_shorter:
  assumes "2 \<le> length d"
  shows "length (filepath_Dir d) < length d"
proof -
  let ?q = "rev (dropWhile (\<lambda>c. c \<noteq> CHR ''/'') (rev d))"
  have le: "length ?q \<le> length d"
    by (metis length_dropWhile_le length_rev)
  show ?thesis
  proof (cases "?q = []")
    case True
    with assms show ?thesis by (simp add: filepath_Dir_def filepath_Clean_def)
  next
    case False
    then have "dropWhile (\<lambda>c. c \<noteq> CHR ''/'') (rev d) \<noteq> []" by simp
    then have "hd (dropWhile (\<lambda>c. c \<noteq> CHR ''/'') (rev d)) = CHR ''/''"
      using hd_dropWhile[of "\<lambda>c. c \<noteq> CHR ''/''" "rev d"] by simp
    with False obtain x where q: "?q = x @ ''/''"
      by (metis (no_types, lifting) append_butlast_last_id last_rev rev_is_Nil_conv)
    show ?thesis
    proof (cases "x = []")
      case True
      with q assms show ?thesis by (simp add: filepath_Dir_def clean_slash)
    next
      case False
      from length_Clean_trailing[OF q False] le show ?thesis
        by (simp add: filepath_Dir_def)
    qed
  qed
qed

function boundaryLoop :: "externals \<Rightarrow> node \<Rightarrow> string \<Rightarrow> string \<Rightarrow> string \<Rightarrow> (string \<times> bool) list
    \<Rightarrow> (string \<times> bool) list result" where
  "boundaryLoop X root pkgdir file dir dirOK =
     (if length dir > length pkgdir + 1 \<and> \<not> lookupBool dirOK dir then
        (case os_Stat root (filepath_Join [dir, ''go.mod'']) of
           Inr _ \<Rightarrow> Fail (EmbedError ''in different module'')
         | Inl _ \<Rightarrow>
             if dir \<noteq> file \<and> (case os_Stat root dir of Inr m \<Rightarrow> m \<noteq> ModeDir | Inl _ \<Rightarrow> False)
             then Fail (EmbedError ''in non-directory'')
             else if isBadEmbedName X (filepath_Base dir)
             then Fail (EmbedError (if dir = file then ''invalid name'' else ''in invalid directory''))
             else boundaryLoop X root pkgdir file (filepath_Dir dir) (AList.update dir True dirOK))
      else Return dirOK)"
  by pat_completeness auto
termination
  by (relation "measure (\<lambda>(X, root, pkgdir, file, dir, dirOK). length dir)")
     (auto intro: filepath_Dir_shorter)

declare boundaryLoop.simps [simp del]

text \<open>
  The walk over a matched directory.  \<open>walkFn\<close> is the function literal handed to
  \<^verbatim>\<open>fsysWalk\<close>; it returns nil or \<^verbatim>\<open>SkipDir\<close>.  \<open>fsyswalk\<close> visits a node and
  then the entries of a directory in the order of \<^verbatim>\<open>os.ReadDir\<close>; the entries are
  those of the node, the tree being fixed.  \<^verbatim>\<open>name[0]\<close> is read only after
  \<open>isBadEmbedName\<close> has answered no, which it never does for the empty name, so
  the index is in range wherever \<open>hiddenName\<close> is asked.
\<close>

datatype walkres = WalkNil embedState | WalkSkipDir embedState

definition hiddenName :: "string \<Rightarrow> bool" where
  "hiddenName name = (case name of [] \<Rightarrow> False | c # _ \<Rightarrow> c = CHR ''.'' \<or> c = CHR ''_'')"

definition walkFn :: "externals \<Rightarrow> node \<Rightarrow> string \<Rightarrow> string \<Rightarrow> bool \<Rightarrow> nat
    \<Rightarrow> string \<Rightarrow> string \<Rightarrow> node \<Rightarrow> embedState \<Rightarrow> walkres" where
  "walkFn X root pkgdir file all pid p name n st =
     (if p \<noteq> file \<and> (isBadEmbedName X name \<or> (hiddenName name \<and> \<not> all))
      then (if modeOf n = ModeDir then WalkSkipDir st else WalkNil st)
      else if modeOf n = ModeDir then
        (case os_Stat root (filepath_Join [p, ''go.mod'']) of
           Inr _ \<Rightarrow> WalkSkipDir st
         | Inl _ \<Rightarrow> WalkNil st)
      else if modeOf n \<noteq> ModeRegular then WalkNil st
      else WalkNil (noteFile (strTrimFilePathPrefix p pkgdir) pid (st\<lparr>es_count := es_count st + 1\<rparr>)))"

lemma size_list_insort_key:
  "size_list f (insort_key g x xs) = size_list f (x # xs)"
  by (induction xs) auto

lemma size_list_dirEntries:
  "size_list f (dirEntries cs) = size_list f cs"
  unfolding dirEntries_def by (induction cs) (auto simp: size_list_insort_key)

function fsyswalk :: "externals \<Rightarrow> node \<Rightarrow> string \<Rightarrow> string \<Rightarrow> bool \<Rightarrow> nat
    \<Rightarrow> string \<Rightarrow> string \<Rightarrow> node \<Rightarrow> embedState \<Rightarrow> walkres"
  and fsyswalkEntries :: "externals \<Rightarrow> node \<Rightarrow> string \<Rightarrow> string \<Rightarrow> bool \<Rightarrow> nat
    \<Rightarrow> string \<Rightarrow> (string \<times> node) list \<Rightarrow> embedState \<Rightarrow> walkres" where
  "fsyswalk X root pkgdir file all pid p name n st =
     (case walkFn X root pkgdir file all pid p name n st of
        WalkSkipDir st1 \<Rightarrow> WalkSkipDir st1
      | WalkNil st1 \<Rightarrow>
          (case n of
             Dir cs \<Rightarrow> fsyswalkEntries X root pkgdir file all pid p (dirEntries cs) st1
           | _ \<Rightarrow> WalkNil st1))"
| "fsyswalkEntries X root pkgdir file all pid p [] st = WalkNil st"
| "fsyswalkEntries X root pkgdir file all pid p ((name, n) # rest) st =
     (case fsyswalk X root pkgdir file all pid (filepath_Join [p, name]) name n st of
        WalkNil st1 \<Rightarrow> fsyswalkEntries X root pkgdir file all pid p rest st1
      | WalkSkipDir st1 \<Rightarrow>
          if modeOf n = ModeDir then fsyswalkEntries X root pkgdir file all pid p rest st1
          else WalkSkipDir st1)"
  by pat_completeness auto
termination
  by (relation "measure (\<lambda>x. case x of
          Inl (X, root, pkgdir, file, all, pid, p, name, n, st) \<Rightarrow> size n
        | Inr (X, root, pkgdir, file, all, pid, p, es, st) \<Rightarrow> size_list (size_prod (\<lambda>_. 0) size) es)")
     (auto simp: size_list_dirEntries)

declare fsyswalk.simps [simp del]

definition fsysWalk :: "externals \<Rightarrow> node \<Rightarrow> string \<Rightarrow> string \<Rightarrow> bool \<Rightarrow> nat \<Rightarrow> embedState
    \<Rightarrow> oserr + embedState" where
  "fsysWalk X root pkgdir file all pid st =
     (case fs_lookup root file of
        Inl e \<Rightarrow> Inl e
      | Inr n \<Rightarrow>
          (case fsyswalk X root pkgdir file all pid file (filepath_Base file) n st of
             WalkNil st1 \<Rightarrow> Inr st1
           | WalkSkipDir st1 \<Rightarrow> Inr st1))"

text \<open>The body of the loop over the matches of one pattern, and the loop.\<close>

definition embedMatch :: "externals \<Rightarrow> node \<Rightarrow> string \<Rightarrow> bool \<Rightarrow> nat \<Rightarrow> string
    \<Rightarrow> embedState \<times> (string \<times> bool) list \<Rightarrow> (embedState \<times> (string \<times> bool) list) result" where
  "embedMatch X root pkgdir all pid file s =
     (case s of (st, dirOK) \<Rightarrow>
        (case os_Stat root file of
           Inl e \<Rightarrow> Fail (OsError e)
         | Inr mode \<Rightarrow>
             bind (boundaryLoop X root pkgdir file file dirOK) (\<lambda>dirOK1.
               if mode = ModeRegular
                 then Return (noteFile (strTrimFilePathPrefix file pkgdir) pid st, dirOK1)
               else if mode = ModeDir then
                 (case fsysWalk X root pkgdir file all pid (st\<lparr>es_count := 0\<rparr>) of
                    Inl e \<Rightarrow> Fail (OsError e)
                  | Inr st1 \<Rightarrow>
                      if es_count st1 = 0 then Fail (EmbedError ''contains no embeddable files'')
                      else Return (st1, dirOK1))
               else Fail (EmbedError ''cannot embed irregular file''))))"

fun embedMatches :: "externals \<Rightarrow> node \<Rightarrow> string \<Rightarrow> bool \<Rightarrow> nat \<Rightarrow> string list
    \<Rightarrow> embedState \<times> (string \<times> bool) list \<Rightarrow> (embedState \<times> (string \<times> bool) list) result" where
  "embedMatches X root pkgdir all pid [] s = Return s"
| "embedMatches X root pkgdir all pid (file # rest) s =
     bind (embedMatch X root pkgdir all pid file s) (embedMatches X root pkgdir all pid rest)"

text \<open>\<^verbatim>\<open>resolveEmbed\<close>: the loop over the patterns with the pattern number, \<^verbatim>\<open>have\<close>,
  \<^verbatim>\<open>dirOK\<close> and \<^verbatim>\<open>pmap\<close>; at the end the keys of \<^verbatim>\<open>have\<close>, sorted.\<close>

definition globFor :: "string \<Rightarrow> string \<Rightarrow> string" where
  "globFor pkgdir glob = strQuoteGlob (strWithFilePathSeparator pkgdir) @ glob"

fun resolveEmbedLoop :: "externals \<Rightarrow> node \<Rightarrow> string \<Rightarrow> string list \<Rightarrow> nat
    \<Rightarrow> (string \<times> nat) list \<Rightarrow> (string \<times> bool) list \<Rightarrow> (string \<times> string list) list
    \<Rightarrow> (string list \<times> (string \<times> string list) list) result" where
  "resolveEmbedLoop X root pkgdir [] pid hav dirOK pmap = Return (sort (map fst hav), pmap)"
| "resolveEmbedLoop X root pkgdir (pattern # rest) pid hav dirOK pmap =
     (case cutPrefix pattern ''all:'' of (glob, all) \<Rightarrow>
        if \<not> path_Match_ok X glob \<or> \<not> validEmbedPattern X glob
          then Fail (EmbedError ''invalid pattern syntax'')
        else
          (case filepath_Glob X (globFor pkgdir glob) of
             None \<Rightarrow> Fail (EmbedError ''syntax error in pattern'')
           | Some match \<Rightarrow>
               bind (embedMatches X root pkgdir all (pid + 1) match
                       (\<lparr>es_have = hav, es_list = [], es_count = 0\<rparr>, dirOK))
                 (\<lambda>(st, dirOK1).
                    if es_list st = [] then Fail (EmbedError ''no matching files found'')
                    else resolveEmbedLoop X root pkgdir rest (pid + 1) (es_have st) dirOK1
                           (AList.update pattern (sort (es_list st)) pmap))))"

definition resolveEmbed :: "externals \<Rightarrow> node \<Rightarrow> string \<Rightarrow> string list
    \<Rightarrow> (string list \<times> (string \<times> string list) list) result" where
  "resolveEmbed X root pkgdir patterns = resolveEmbedLoop X root pkgdir patterns 0 [] [] []"

text \<open>
  What the specification calls the eligible files of a matched directory \<open>file\<close>:
  the regular files below it, not counting what lies under an entry with a bad
  name, under a hidden entry (unless the pattern began with \<^verbatim>\<open>all:\<close>) or in a
  directory that has a \<^verbatim>\<open>go.mod\<close>.  \<open>embedMatchesOf\<close> are the paths that a pattern
  matches.
\<close>

fun embeddable :: "externals \<Rightarrow> node \<Rightarrow> string \<Rightarrow> bool \<Rightarrow> string \<Rightarrow> string \<Rightarrow> node \<Rightarrow> string list"
  and embeddableEntries :: "externals \<Rightarrow> node \<Rightarrow> string \<Rightarrow> bool \<Rightarrow> string \<Rightarrow> (string \<times> node) list
    \<Rightarrow> string list" where
  "embeddable X root file all p name (File bytes) =
     (if p \<noteq> file \<and> (isBadEmbedName X name \<or> (hiddenName name \<and> \<not> all)) then [] else [p])"
| "embeddable X root file all p name Special = []"
| "embeddable X root file all p name (Dir cs) =
     (if p \<noteq> file \<and> (isBadEmbedName X name \<or> (hiddenName name \<and> \<not> all)) then []
      else (case os_Stat root (filepath_Join [p, ''go.mod'']) of
              Inr _ \<Rightarrow> []
            | Inl _ \<Rightarrow> embeddableEntries X root file all p cs))"
| "embeddableEntries X root file all p [] = []"
| "embeddableEntries X root file all p ((name, n) # rest) =
     embeddable X root file all (filepath_Join [p, name]) name n @
     embeddableEntries X root file all p rest"

definition embedMatchesOf :: "externals \<Rightarrow> string \<Rightarrow> string \<Rightarrow> string list" where
  "embedMatchesOf X pkgdir pattern =
     (case filepath_Glob X (globFor pkgdir (fst (cutPrefix pattern ''all:''))) of
        None \<Rightarrow> []
      | Some match \<Rightarrow> match)"

definition emptyDirAt :: "externals \<Rightarrow> node \<Rightarrow> bool \<Rightarrow> string \<Rightarrow> bool" where
  "emptyDirAt X root all file =
     (case fs_lookup root file of
        Inr (Dir cs) \<Rightarrow> embeddable X root file all file (filepath_Base file) (Dir cs) = []
      | _ \<Rightarrow> False)"

definition emptyDirMatch :: "externals \<Rightarrow> node \<Rightarrow> string \<Rightarrow> string \<Rightarrow> bool" where
  "emptyDirMatch X root pkgdir pattern =
     list_ex (emptyDirAt X root (snd (cutPrefix pattern ''all:''))) (embedMatchesOf X pkgdir pattern)"

text \<open>The state that a walk hands back, whichever way it ends.\<close>

fun walkState :: "walkres \<Rightarrow> embedState" where
  "walkState (WalkNil st) = st"
| "walkState (WalkSkipDir st) = st"

section \<open>The source walk\<close>

text \<open>\<^verbatim>\<open>srcRE\<close> and \<^verbatim>\<open>packageFile\<close>: the name ends in a dot and one of the listed
  extensions, is not a test file and does not begin with an underscore or a dot.\<close>

definition srcRE :: "string \<Rightarrow> bool" where
  "srcRE name =
     list_ex (\<lambda>ext. hasSuffix name (''.'' @ ext))
       [''go'', ''s'', ''S'', ''c'', ''cc'', ''cpp'', ''cxx'', ''m'', ''h'', ''hh'', ''hpp'', ''hxx'',
        ''f'', ''F'', ''for'', ''f90'']"

definition packageFile :: "string \<Rightarrow> bool" where
  "packageFile name =
     (if hasSuffix name ''_test.go'' then False
      else if hasPrefix name ''_'' \<or> hasPrefix name ''.'' then False
      else srcRE name)"

text \<open>
  \<^verbatim>\<open>stdlibPackageRE\<close> is the regular expression \<^verbatim>\<open>^\"[a-z]+(/|")\<close>, matched against
  the import literal with its quotes: a double quote, then lower-case letters (at
  least one, and as many as there are, since neither byte that may follow is a
  letter), then a slash or a double quote.
\<close>

definition isLower :: "char \<Rightarrow> bool" where
  "isLower c = (CHR ''a'' \<le> c \<and> c \<le> CHR ''z'')"

definition stdlibPackageRE :: "string \<Rightarrow> bool" where
  "stdlibPackageRE s =
     (case s of
        [] \<Rightarrow> False
      | q # rest \<Rightarrow>
          q = dquote \<and> takeWhile isLower rest \<noteq> [] \<and>
          (case dropWhile isLower rest of
             [] \<Rightarrow> False
           | c # _ \<Rightarrow> c = CHR ''/'' \<or> c = dquote))"

text \<open>
  The loop over \<^verbatim>\<open>node.Imports\<close>.  The recursive call of \<^verbatim>\<open>parsePackage\<close> is the
  argument \<open>rec\<close>.  The directory and the flag that \<^verbatim>\<open>resolveImport\<close> returns are
  new variables of the loop body: every import is resolved from the package
  directory.
\<close>

fun importLoop :: "(parseContext \<Rightarrow> string \<Rightarrow> parseContext result) \<Rightarrow> nat \<Rightarrow> externals \<Rightarrow> node
    \<Rightarrow> string \<Rightarrow> string list \<Rightarrow> parseContext \<Rightarrow> parseContext result" where
  "importLoop rec n X root dir [] pc = Return pc"
| "importLoop rec n X root dir (imp # imps) pc =
     (if stdlibPackageRE imp then importLoop rec n X root dir imps pc
      else
        bind (resolveImport n X root pc dir (stripPackageQuotes imp)) (\<lambda>((d, local), pc1).
          if \<not> local then importLoop rec n X root dir imps pc1
          else bind (rec pc1 d) (importLoop rec n X root dir imps)))"

text \<open>The loop over the comments of a file, group after group.\<close>

fun embedComments :: "externals \<Rightarrow> string list \<Rightarrow> string list \<Rightarrow> string list result" where
  "embedComments X [] embedPatterns = Return embedPatterns"
| "embedComments X (text # texts) embedPatterns =
     (case cutPrefix text ''//go:embed '' of
        (s, found) \<Rightarrow>
          if found then
            (case parseGoEmbed X s of
               None \<Rightarrow> Fail (EmbedCommentError text)
             | Some patterns \<Rightarrow> embedComments X texts (embedPatterns @ patterns))
          else embedComments X texts embedPatterns)"

text \<open>The body of the loop over the directory entries, and the loop.\<close>

definition packageEntry :: "(parseContext \<Rightarrow> string \<Rightarrow> parseContext result) \<Rightarrow> nat \<Rightarrow> externals \<Rightarrow> node
    \<Rightarrow> string \<Rightarrow> string \<times> fmode \<Rightarrow> parseContext \<times> string list
    \<Rightarrow> (parseContext \<times> string list) result" where
  "packageEntry rec n X root dir de s =
     (case (de, s) of ((name, mode), (pc, embedPatterns)) \<Rightarrow>
        if mode \<noteq> ModeRegular then Return (pc, embedPatterns)
        else if \<not> packageFile name then Return (pc, embedPatterns)
        else
          bind (addChecksum X root pc (filepath_Join [dir, name])) (\<lambda>pc1.
            if hasSuffix name ''.go'' then
              (case os_ReadFile root (filepath_Join [dir, name]) of
                 Inl e \<Rightarrow> Fail (GoParseError name)
               | Inr src \<Rightarrow>
                   (case parser_ParseFile X src of
                      None \<Rightarrow> Fail (GoParseError name)
                    | Some gf \<Rightarrow>
                        bind (importLoop rec n X root dir (gf_Imports gf) pc1) (\<lambda>pc2.
                          bind (embedComments X (concat (gf_Comments gf)) embedPatterns) (\<lambda>patterns.
                            Return (pc2, patterns)))))
            else Return (pc1, embedPatterns)))"

fun packageEntries :: "(parseContext \<Rightarrow> string \<Rightarrow> parseContext result) \<Rightarrow> nat \<Rightarrow> externals \<Rightarrow> node
    \<Rightarrow> string \<Rightarrow> (string \<times> fmode) list \<Rightarrow> parseContext \<times> string list
    \<Rightarrow> (parseContext \<times> string list) result" where
  "packageEntries rec n X root dir [] s = Return s"
| "packageEntries rec n X root dir (de # des) s =
     bind (packageEntry rec n X root dir de s) (packageEntries rec n X root dir des)"

text \<open>The last loop of \<^verbatim>\<open>parsePackage\<close>: the embedded files, sorted, are hashed.\<close>

fun embedChecksums :: "externals \<Rightarrow> node \<Rightarrow> string \<Rightarrow> string list \<Rightarrow> parseContext \<Rightarrow> parseContext result" where
  "embedChecksums X root dir [] pc = Return pc"
| "embedChecksums X root dir (f # fs) pc =
     bind (addChecksum X root pc (filepath_Join [dir, f])) (embedChecksums X root dir fs)"

text \<open>\<^verbatim>\<open>parsePackage\<close>.  The fuel bounds the depth of the recursion over imports and
  the number of passes of the loops of \<^verbatim>\<open>findModule\<close> and \<^verbatim>\<open>resolveImport\<close>.\<close>

fun parsePackage :: "nat \<Rightarrow> externals \<Rightarrow> node \<Rightarrow> parseContext \<Rightarrow> string \<Rightarrow> parseContext result" where
  "parsePackage 0 X root pc dir = OutOfFuel"
| "parsePackage (Suc n) X root pc dir =
     (if lookupBool (pc_packages pc) dir then Return pc
      else
        bind (findModule (Suc n) X root (pc\<lparr>pc_packages := AList.update dir True (pc_packages pc)\<rparr>) dir)
          (\<lambda>(info, pc1).
            (case os_ReadDir root dir of
               Inl e \<Rightarrow> Fail (OsError e)
             | Inr des \<Rightarrow>
                 bind (packageEntries (\<lambda>pc' d. parsePackage n X root pc' d) (Suc n) X root dir des (pc1, []))
                   (\<lambda>(pc2, embedPatterns).
                      bind (resolveEmbed X root dir embedPatterns) (\<lambda>(files, pmap).
                        embedChecksums X root dir (sort files) pc2)))))"

section \<open>The fingerprint\<close>

text \<open>
  \<^verbatim>\<open>filepath.Abs\<close> with the root as working directory (the working directory
  can always be read, so it returns no error).  \<^verbatim>\<open>packageSourceChecksums\<close>
  returns the map \<^verbatim>\<open>pc.checksums\<close>.
\<close>

definition filepath_Abs :: "string \<Rightarrow> string" where
  "filepath_Abs p = (if isRooted p then filepath_Clean p else filepath_Join [''/'', p])"

definition packageSourceChecksums :: "nat \<Rightarrow> externals \<Rightarrow> node \<Rightarrow> string \<Rightarrow> (string \<times> string) list result" where
  "packageSourceChecksums n X root dir =
     bind (parsePackage n X root \<lparr>checksums = [], pc_packages = [], modules = []\<rparr> (filepath_Abs dir))
       (\<lambda>pc. Return (checksums pc))"

text \<open>
  \<^verbatim>\<open>json.Marshal\<close> of the three-element slice: a JSON array of an object, an array
  of strings and an object.  \<^verbatim>\<open>encoding/json\<close> writes the entries of a map sorted
  by key, whatever the iteration order of the map.  How a JSON value is written as
  bytes is the parameter \<open>render\<close>.  The two panics of \<^verbatim>\<open>checksum\<close> have no
  branch here: maps and slices of strings can always be marshalled, and writing to
  a hash returns no error.  Two things \<^verbatim>\<open>json.Marshal\<close> does are left out: a nil
  slice of flags is written as \<^verbatim>\<open>null\<close> and not as the empty array, which the list
  of flags here does not tell apart, and bytes that are not valid UTF-8 are replaced
  before they are written.
\<close>

datatype json = JString string | JArray "json list" | JObject "(string \<times> json) list"

definition marshalMap :: "(string \<times> string) list \<Rightarrow> json" where
  "marshalMap m = JObject (map (\<lambda>(k, v). (k, JString v)) (sort_key fst m))"

definition marshalStrings :: "string list \<Rightarrow> json" where
  "marshalStrings xs = JArray (map JString xs)"

definition checksumInput :: "(string \<times> string) list \<Rightarrow> string list \<Rightarrow> (string \<times> string) list \<Rightarrow> json" where
  "checksumInput filesChecksums compilerFlags compilerEnv =
     JArray [marshalMap filesChecksums, marshalStrings compilerFlags, marshalMap compilerEnv]"

definition checksumOf :: "externals \<Rightarrow> (json \<Rightarrow> string) \<Rightarrow> (string \<times> string) list \<Rightarrow> string list
    \<Rightarrow> (string \<times> string) list \<Rightarrow> string" where
  "checksumOf X render filesChecksums compilerFlags compilerEnv =
     sha256hex X (render (checksumInput filesChecksums compilerFlags compilerEnv))"

definition checksum :: "nat \<Rightarrow> externals \<Rightarrow> (json \<Rightarrow> string) \<Rightarrow> node \<Rightarrow> string \<Rightarrow> string list
    \<Rightarrow> (string \<times> string) list \<Rightarrow> string result" where
  "checksum n X render root dir compilerFlags compilerEnv =
     bind (packageSourceChecksums n X root dir) (\<lambda>filesChecksums.
       Return (checksumOf X render filesChecksums compilerFlags compilerEnv))"

text \<open>A plain way of writing a JSON value as bytes (strings are not escaped), for
  running the model.\<close>

fun renderPlain :: "json \<Rightarrow> string" where
  "renderPlain (JString s) = [dquote] @ s @ [dquote]"
| "renderPlain (JArray xs) = ''['' @ joinWith '','' (map renderPlain xs) @ '']''"
| "renderPlain (JObject kvs) =
     ''{'' @ joinWith '','' (map (\<lambda>(k, v). [dquote] @ k @ [dquote] @ '':'' @ renderPlain v) kvs) @ ''}''"

section \<open>The cache store\<close>

text \<open>
  The cache directory of one package, as \<^verbatim>\<open>build.go\<close> sees it while it holds the
  lock: whether the directory exists, its files with their modification times, the
  time the next file written will get, and the names whose removal the operating
  system refuses.  No other process touches the directory meanwhile, opening and
  locking it succeed, and every build is later than everything in the directory.
\<close>

record cacheDir =
  cd_exists :: bool
  cd_files :: "(string \<times> nat) list"
  cd_clock :: nat
  cd_undeletable :: "string list"

definition keepCacheEntriesOnCleanup :: nat where
  "keepCacheEntriesOnCleanup = 2"

text \<open>The loop of \<^verbatim>\<open>cacheCleanup\<close> that removes the entries handed to it; removing
  a file that is not there is passed over.\<close>

fun removeEntries :: "(string \<times> nat) list \<Rightarrow> cacheDir \<Rightarrow> cacheDir result" where
  "removeEntries [] s = Return s"
| "removeEntries ((fileName, mtime) # rest) s =
     (if List.member (cd_undeletable s) fileName then Fail (CacheError fileName)
      else removeEntries rest (s\<lparr>cd_files := AList.delete fileName (cd_files s)\<rparr>))"

text \<open>\<^verbatim>\<open>cacheCleanup\<close>: \<^verbatim>\<open>os.ReadDir\<close> lists the entries by name, \<^verbatim>\<open>sort.Slice\<close>
  orders them by modification time, and all but the last
  \<open>keepCacheEntriesOnCleanup\<close> are removed (none when there are no more than
  that).  \<^verbatim>\<open>sort.Slice\<close> may put entries of equal time in any order; the sort used
  here keeps them in order of name, and the properties below are about directories
  whose times are distinct, where the order is the same for every sort.\<close>

definition cacheContents :: "cacheDir \<Rightarrow> (string \<times> nat) list" where
  "cacheContents s = sort_key snd (sort_key fst (cd_files s))"

definition cacheCleanup :: "cacheDir \<Rightarrow> cacheDir result" where
  "cacheCleanup s =
     (if \<not> cd_exists s then Return s
      else removeEntries
             (take (length (cacheContents s) - keepCacheEntriesOnCleanup) (cacheContents s)) s)"

text \<open>\<^verbatim>\<open>openPackageCacheDir\<close> creates the directory when it is missing; \<^verbatim>\<open>build\<close>
  writes the executable under the name of the checksum when the compiler succeeds;
  \<^verbatim>\<open>updateCache\<close> opens, cleans up, then builds.\<close>

definition openPackageCacheDir :: "cacheDir \<Rightarrow> cacheDir" where
  "openPackageCacheDir s = (if cd_exists s then s else s\<lparr>cd_exists := True, cd_files := []\<rparr>)"

definition build :: "cacheDir \<Rightarrow> string \<Rightarrow> bool \<Rightarrow> bool \<times> cacheDir" where
  "build s sourceChecksum compiles =
     (if compiles
      then (True, s\<lparr>cd_files := AList.update sourceChecksum (cd_clock s) (cd_files s),
                     cd_clock := Suc (cd_clock s)\<rparr>)
      else (False, s\<lparr>cd_clock := Suc (cd_clock s)\<rparr>))"

definition updateCache :: "cacheDir \<Rightarrow> string \<Rightarrow> bool \<Rightarrow> (bool \<times> cacheDir) result" where
  "updateCache s sourceChecksum compiles =
     bind (cacheCleanup (openPackageCacheDir s)) (\<lambda>s1. Return (build s1 sourceChecksum compiles))"

text \<open>One successful update after the other, each for the next checksum of the
  list.\<close>

fun updates :: "cacheDir \<Rightarrow> string list \<Rightarrow> cacheDir result" where
  "updates s [] = Return s"
| "updates s (c # cs) = bind (updateCache s c True) (\<lambda>(updated, s1). updates s1 cs)"

text \<open>A directory is well timed when its file names are distinct, its modification
  times are distinct and in the past, and a missing directory has no files.\<close>

definition wellTimed :: "cacheDir \<Rightarrow> bool" where
  "wellTimed s =
     (distinct (map fst (cd_files s)) \<and> distinct (map snd (cd_files s)) \<and>
      list_all (\<lambda>e. snd e < cd_clock s) (cd_files s) \<and>
      (cd_exists s \<or> cd_files s = []))"

definition noCache :: cacheDir where
  "noCache = \<lparr>cd_exists = False, cd_files = [], cd_clock = 0, cd_undeletable = []\<rparr>"

section \<open>Sample inputs\<close>

text \<open>
  The inputs on which the properties below are tried.  First collaborators given by
  tables: the
  parsers look the file contents up, \<^verbatim>\<open>filepath.Glob\<close> looks the pattern up (a
  pattern that is not in the table matches nothing), every pattern and file name is
  valid, and the stand-in for SHA-256 is the identity.
\<close>

definition tableExternals ::
    "(string \<times> modfile) list \<Rightarrow> (string \<times> gofile) list \<Rightarrow> (string \<times> string list) list \<Rightarrow> externals" where
  "tableExternals mods gos globs =
     \<lparr>sha256hex = (\<lambda>bytes. bytes),
      modfile_Parse = map_of mods,
      parser_ParseFile = map_of gos,
      filepath_Glob = (\<lambda>pat. Some (case map_of globs pat of None \<Rightarrow> [] | Some ms \<Rightarrow> ms)),
      path_Match_ok = (\<lambda>_. True),
      fs_ValidPath = (\<lambda>_. True),
      module_CheckFilePath_ok = (\<lambda>_. True),
      strconv_Unquote = (\<lambda>_. None)\<rparr>"

definition emptyContext :: parseContext where
  "emptyContext = \<lparr>checksums = [], pc_packages = [], modules = []\<rparr>"

text \<open>A module that requires its own path (\<^verbatim>\<open>go.mod\<close> in \<^verbatim>\<open>/m\<close>).\<close>

definition selfRequire_gomod :: string where
  "selfRequire_gomod =
     ''module example.com/m'' @ [CHR 0x0A] @ ''require example.com/m v1.0.0'' @ [CHR 0x0A]"

definition selfRequire_externals :: externals where
  "selfRequire_externals =
     tableExternals
       [(selfRequire_gomod,
         \<lparr>mf_Module = Some ''example.com/m'', mf_Require = [''example.com/m''], mf_Replace = []\<rparr>)]
       [] []"

definition selfRequire_root :: node where
  "selfRequire_root = Dir [(''m'', Dir [(''go.mod'', File selfRequire_gomod)])]"

text \<open>A module in \<^verbatim>\<open>/w/m\<close> with an absolute, a relative and a versioned
  replacement.\<close>

definition replaces_gomod :: string where
  "replaces_gomod =
     ''module example.com/m'' @ [CHR 0x0A] @
     ''replace example.com/a => /opt/a'' @ [CHR 0x0A] @
     ''replace example.com/b => ../b'' @ [CHR 0x0A] @
     ''replace example.com/c => example.com/fork v1.2.0'' @ [CHR 0x0A]"

definition replaces_modfile :: modfile where
  "replaces_modfile =
     \<lparr>mf_Module = Some ''example.com/m'', mf_Require = [],
      mf_Replace = [(''example.com/a'', ''/opt/a'', []),
                    (''example.com/b'', ''../b'', []),
                    (''example.com/c'', ''example.com/fork'', ''v1.2.0'')]\<rparr>"

definition replaces_externals :: externals where
  "replaces_externals = tableExternals [(replaces_gomod, replaces_modfile)] [] []"

definition replaces_root :: node where
  "replaces_root = Dir [(''w'', Dir [(''m'', Dir [(''go.mod'', File replaces_gomod)])])]"

text \<open>A module in \<^verbatim>\<open>/a\<close> that replaces \<^verbatim>\<open>example.com/x\<close> by its own
  directory.\<close>

definition selfReplace_gomod :: string where
  "selfReplace_gomod =
     ''module example.com/a'' @ [CHR 0x0A] @ ''replace example.com/x => ./'' @ [CHR 0x0A]"

definition selfReplace_modfile :: modfile where
  "selfReplace_modfile =
     \<lparr>mf_Module = Some ''example.com/a'', mf_Require = [],
      mf_Replace = [(''example.com/x'', ''./'', [])]\<rparr>"

definition selfReplace_externals :: externals where
  "selfReplace_externals = tableExternals [(selfReplace_gomod, selfReplace_modfile)] [] []"

definition selfReplace_root :: node where
  "selfReplace_root = Dir [(''a'', Dir [(''go.mod'', File selfReplace_gomod)])]"

definition selfReplace_info :: moduleInfo where
  "selfReplace_info =
     \<lparr>mi_path = ''example.com/a'',
      mi_packages = [(''example.com/a'', ''/a''), (''example.com/x'', ''/a'')]\<rparr>"

definition selfReplace_context :: parseContext where
  "selfReplace_context =
     \<lparr>checksums = [(''/a/go.mod'', selfReplace_gomod)], pc_packages = [],
      modules = [(''/a'', selfReplace_info)]\<rparr>"

text \<open>A context that already knows the module of \<^verbatim>\<open>/src/m\<close> (its own path, a
  replaced sub-path, a remote requirement), and one that knows a module of
  \<^verbatim>\<open>/m\<close> whose path is empty.\<close>

definition nested_info :: moduleInfo where
  "nested_info =
     \<lparr>mi_path = ''a.io/m'',
      mi_packages = [(''a.io/m'', ''/src/m''), (''a.io/m/sub'', ''/src/other''), (''b.io/x'', [])]\<rparr>"

definition nested_context :: parseContext where
  "nested_context = \<lparr>checksums = [], pc_packages = [], modules = [(''/src/m'', nested_info)]\<rparr>"

definition emptyPath_info :: moduleInfo where
  "emptyPath_info = \<lparr>mi_path = [], mi_packages = [([], ''/m'')]\<rparr>"

definition emptyPath_context :: parseContext where
  "emptyPath_context = \<lparr>checksums = [], pc_packages = [], modules = [(''/m'', emptyPath_info)]\<rparr>"

text \<open>A package in \<^verbatim>\<open>/a\<close> whose only source file embeds itself.\<close>

definition embedSelf_gomod :: string where
  "embedSelf_gomod = ''module example.com/a'' @ [CHR 0x0A]"

definition embedSelf_main :: string where
  "embedSelf_main =
     ''package main'' @ [CHR 0x0A] @
     ''import _ '' @ [dquote] @ ''embed'' @ [dquote] @ [CHR 0x0A] @
     ''//go:embed main.go'' @ [CHR 0x0A] @
     ''var source string'' @ [CHR 0x0A] @
     ''func main() {}'' @ [CHR 0x0A]"

definition embedSelf_externals :: externals where
  "embedSelf_externals =
     tableExternals
       [(embedSelf_gomod, \<lparr>mf_Module = Some ''example.com/a'', mf_Require = [], mf_Replace = []\<rparr>)]
       [(embedSelf_main,
         \<lparr>gf_Imports = [[dquote] @ ''embed'' @ [dquote]], gf_Comments = [[''//go:embed main.go'']]\<rparr>)]
       [(''/a/main.go'', [''/a/main.go''])]"

definition embedSelf_root :: node where
  "embedSelf_root =
     Dir [(''a'', Dir [(''go.mod'', File embedSelf_gomod), (''main.go'', File embedSelf_main)])]"

text \<open>A module in \<^verbatim>\<open>/a\<close> whose \<^verbatim>\<open>main.go\<close> imports the package \<^verbatim>\<open>sub\<close> of the
  same module, for a module path given as parameter; \<open>src\<close> is the content of
  \<^verbatim>\<open>/a/sub/sub.go\<close>.\<close>

definition ownImport_gomod :: "string \<Rightarrow> string" where
  "ownImport_gomod modPath = ''module '' @ modPath @ [CHR 0x0A]"

definition ownImport_main :: "string \<Rightarrow> string" where
  "ownImport_main modPath =
     ''package main'' @ [CHR 0x0A] @
     ''import '' @ [dquote] @ modPath @ ''/sub'' @ [dquote] @ [CHR 0x0A] @
     ''func main() { sub.Run() }'' @ [CHR 0x0A]"

definition ownImport_sub :: string where
  "ownImport_sub = ''package sub'' @ [CHR 0x0A] @ ''func Run() {}'' @ [CHR 0x0A]"

definition ownImport_externals :: "string \<Rightarrow> externals" where
  "ownImport_externals modPath =
     tableExternals
       [(ownImport_gomod modPath, \<lparr>mf_Module = Some modPath, mf_Require = [], mf_Replace = []\<rparr>)]
       [(ownImport_main modPath,
         \<lparr>gf_Imports = [[dquote] @ modPath @ ''/sub'' @ [dquote]], gf_Comments = []\<rparr>),
        (ownImport_sub, \<lparr>gf_Imports = [], gf_Comments = []\<rparr>)]
       []"

definition ownImport_root :: "string \<Rightarrow> string \<Rightarrow> node" where
  "ownImport_root modPath src =
     Dir [(''a'', Dir [(''go.mod'', File (ownImport_gomod modPath)),
                       (''main.go'', File (ownImport_main modPath)),
                       (''sub'', Dir [(''sub.go'', File src)])])]"

text \<open>A module in \<^verbatim>\<open>/q\<close> whose \<^verbatim>\<open>main.go\<close> imports \<^verbatim>\<open>fmt\<close> and the package
  \<^verbatim>\<open>/q/sub\<close>; that package embeds the directory \<^verbatim>\<open>assets\<close>, in which there is
  nothing but a hidden file.  Then the contexts the walk passes through.\<close>

definition nestedEmbed_gomod :: string where
  "nestedEmbed_gomod = ''module example.com/q'' @ [CHR 0x0A]"

definition nestedEmbed_main :: string where
  "nestedEmbed_main =
     ''package main'' @ [CHR 0x0A] @
     ''import '' @ [dquote] @ ''fmt'' @ [dquote] @ [CHR 0x0A] @
     ''import '' @ [dquote] @ ''example.com/q/sub'' @ [dquote] @ [CHR 0x0A] @
     ''func main() { fmt.Println(sub.Assets) }'' @ [CHR 0x0A]"

definition nestedEmbed_sub :: string where
  "nestedEmbed_sub =
     ''package sub'' @ [CHR 0x0A] @
     ''import '' @ [dquote] @ ''embed'' @ [dquote] @ [CHR 0x0A] @
     ''//go:embed assets'' @ [CHR 0x0A] @
     ''var Assets embed.FS'' @ [CHR 0x0A]"

definition nestedEmbed_mainFile :: gofile where
  "nestedEmbed_mainFile =
     \<lparr>gf_Imports = [[dquote] @ ''fmt'' @ [dquote], [dquote] @ ''example.com/q/sub'' @ [dquote]],
      gf_Comments = []\<rparr>"

definition nestedEmbed_externals :: externals where
  "nestedEmbed_externals =
     tableExternals
       [(nestedEmbed_gomod, \<lparr>mf_Module = Some ''example.com/q'', mf_Require = [], mf_Replace = []\<rparr>)]
       [(nestedEmbed_main, nestedEmbed_mainFile),
        (nestedEmbed_sub,
         \<lparr>gf_Imports = [[dquote] @ ''embed'' @ [dquote]], gf_Comments = [[''//go:embed assets'']]\<rparr>)]
       [(''/q/sub/assets'', [''/q/sub/assets''])]"

definition nestedEmbed_root :: node where
  "nestedEmbed_root =
     Dir [(''q'', Dir [(''go.mod'', File nestedEmbed_gomod),
                       (''main.go'', File nestedEmbed_main),
                       (''sub'', Dir [(''assets'', Dir [(''.keep'', File [])]),
                                      (''sub.go'', File nestedEmbed_sub)])])]"

definition nestedEmbed_info :: moduleInfo where
  "nestedEmbed_info = \<lparr>mi_path = ''example.com/q'', mi_packages = [(''example.com/q'', ''/q'')]\<rparr>"

definition nestedEmbed_found :: parseContext where
  "nestedEmbed_found =
     \<lparr>checksums = [(''/q/go.mod'', nestedEmbed_gomod)], pc_packages = [(''/q'', True)],
      modules = [(''/q'', nestedEmbed_info)]\<rparr>"

definition nestedEmbed_hashed :: parseContext where
  "nestedEmbed_hashed =
     \<lparr>checksums = [(''/q/go.mod'', nestedEmbed_gomod), (''/q/main.go'', nestedEmbed_main)],
      pc_packages = [(''/q'', True)], modules = [(''/q'', nestedEmbed_info)]\<rparr>"

definition nestedEmbed_subFound :: parseContext where
  "nestedEmbed_subFound =
     \<lparr>checksums = [(''/q/go.mod'', nestedEmbed_gomod), (''/q/main.go'', nestedEmbed_main)],
      pc_packages = [(''/q'', True), (''/q/sub'', True)],
      modules = [(''/q'', nestedEmbed_info), (''/q/sub'', nestedEmbed_info)]\<rparr>"

definition nestedEmbed_subScanned :: parseContext where
  "nestedEmbed_subScanned =
     \<lparr>checksums = [(''/q/go.mod'', nestedEmbed_gomod), (''/q/main.go'', nestedEmbed_main),
                   (''/q/sub/sub.go'', nestedEmbed_sub)],
      pc_packages = [(''/q'', True), (''/q/sub'', True)],
      modules = [(''/q'', nestedEmbed_info), (''/q/sub'', nestedEmbed_info)]\<rparr>"

chapter \<open>Properties\<close>

section \<open>Prefix matching and one pass of import resolution\<close>

lemma hasPrefix_iff: "hasPrefix s p \<longleftrightarrow> (\<exists>r. s = p @ r)"
proof
  assume "hasPrefix s p"
  then have "s = p @ drop (length p) s"
    by (metis append_take_drop_id hasPrefix_def)
  then show "\<exists>r. s = p @ r" ..
next
  assume "\<exists>r. s = p @ r"
  then show "hasPrefix s p" by (auto simp: hasPrefix_def)
qed

lemma packageInsideOf_iff:
  "packageInsideOf p base \<longleftrightarrow> (p = base \<or> (\<exists>rest. p = base @ ''/'' @ rest))"
  by (auto simp: packageInsideOf_def hasPrefix_iff)

text \<open>Two bases of the same length that both contain an import path are equal, so
  the lengths of the matching keys of a map are pairwise different and the loop of
  \<^verbatim>\<open>resolveImport\<close> does not depend on the iteration order of the map.\<close>

lemma packageInsideOf_same_length:
  assumes "packageInsideOf ip k" and "packageInsideOf ip k'" and "length k = length k'"
  shows "k = k'"
  using assms by (auto simp: packageInsideOf_iff append_eq_append_conv)

lemma longestMatch_inv:
  "longestMatch ip kvs (bp, bd) = (rp, rd) \<Longrightarrow>
     ((rp, rd) = (bp, bd) \<or> ((rp, rd) \<in> set kvs \<and> packageInsideOf ip rp \<and> length bp < length rp))
     \<and> length bp \<le> length rp
     \<and> (\<forall>(k, d) \<in> set kvs. packageInsideOf ip k \<longrightarrow> length k \<le> length rp)"
proof (induction kvs arbitrary: bp bd)
  case Nil
  then show ?case by simp
next
  case (Cons kv kvs)
  obtain k d where kv: "kv = (k, d)" by (cases kv)
  show ?case
  proof (cases "packageInsideOf ip k \<and> length bp < length k")
    case True
    with Cons.prems kv have "longestMatch ip kvs (k, d) = (rp, rd)" by simp
    from Cons.IH[OF this] True kv show ?thesis by auto
  next
    case False
    with Cons.prems kv have "longestMatch ip kvs (bp, bd) = (rp, rd)" by simp
    from Cons.IH[OF this] False kv show ?thesis by auto
  qed
qed

lemma longestMatch_unique:
  assumes dist: "distinct (map fst kvs)"
    and mem: "(k, d) \<in> set kvs" and ne: "k \<noteq> []" and ins: "packageInsideOf ip k"
    and mx: "\<forall>(k', d') \<in> set kvs. packageInsideOf ip k' \<longrightarrow> length k' \<le> length k"
  shows "longestMatch ip kvs ([], []) = (k, d)"
proof -
  obtain rp rd where r: "longestMatch ip kvs ([], []) = (rp, rd)" by force
  note inv = longestMatch_inv[OF r]
  from inv mem ins have "length k \<le> length rp" by auto
  with ne have "rp \<noteq> []" by auto
  with inv have rin: "(rp, rd) \<in> set kvs" and rins: "packageInsideOf ip rp" by auto
  with mx have "length rp \<le> length k" by auto
  with \<open>length k \<le> length rp\<close> have "rp = k"
    using packageInsideOf_same_length[OF rins ins] by simp
  with dist rin mem have "rd = d"
    by (metis eq_key_imp_eq_value)
  with \<open>rp = k\<close> r show ?thesis by simp
qed

lemma longestMatch_empty_iff:
  "fst (longestMatch ip kvs ([], [])) = [] \<longleftrightarrow>
     \<not> (\<exists>(k, d) \<in> set kvs. k \<noteq> [] \<and> packageInsideOf ip k)"
proof -
  obtain rp rd where r: "longestMatch ip kvs ([], []) = (rp, rd)" by force
  note inv = longestMatch_inv[OF r]
  show ?thesis
  proof
    assume "fst (longestMatch ip kvs ([], [])) = []"
    with r have "rp = []" by simp
    with inv show "\<not> (\<exists>(k, d) \<in> set kvs. k \<noteq> [] \<and> packageInsideOf ip k)" by auto
  next
    assume "\<not> (\<exists>(k, d) \<in> set kvs. k \<noteq> [] \<and> packageInsideOf ip k)"
    with inv have "rp = []" by force
    with r show "fst (longestMatch ip kvs ([], [])) = []" by simp
  qed
qed

lemma dirForPackageInModule_strip:
  assumes "packageInsideOf ip k"
  shows "dirForPackageInModule k d ip =
           (if k = ip then d else filepath_Join [d, drop (length k + 1) ip])"
  using assms by (auto simp: dirForPackageInModule_def packageInsideOf_def trimPrefix_def)

text \<open>
  C10.  \<open>packageInsideOf p base\<close> holds exactly when \<open>p\<close> is \<open>base\<close> or is
  \<open>base\<close> followed by a slash and anything.  So \<^verbatim>\<open>example.com/foobar\<close>, of which
  \<^verbatim>\<open>example.com/foo\<close> is a string prefix, is not inside \<^verbatim>\<open>example.com/foo\<close>,
  and the loop of \<^verbatim>\<open>resolveImport\<close> passes over such an entry whatever it has
  matched so far.
\<close>

theorem packageInsideOf_segment_aligned:
  "(packageInsideOf p base \<longleftrightarrow> (p = base \<or> (\<exists>rest. p = base @ ''/'' @ rest)))
   \<and> hasPrefix ''example.com/foobar'' ''example.com/foo''
   \<and> \<not> packageInsideOf ''example.com/foobar'' ''example.com/foo''
   \<and> longestMatch ''example.com/foobar'' ((''example.com/foo'', d) # rest) best
       = longestMatch ''example.com/foobar'' rest best"
proof -
  have a: "hasPrefix ''example.com/foobar'' ''example.com/foo''"
    by (simp add: hasPrefix_def)
  have b: "\<not> packageInsideOf ''example.com/foobar'' ''example.com/foo''"
    by (simp add: packageInsideOf_def hasPrefix_def)
  have c: "longestMatch ''example.com/foobar'' ((''example.com/foo'', d) # rest) best
       = longestMatch ''example.com/foobar'' rest best"
    using b by (cases best) simp
  from a b c packageInsideOf_iff show ?thesis by blast
qed

text \<open>
  C5, as the code has it.  Let the package map of the module have distinct keys.
  One pass of \<^verbatim>\<open>resolveImport\<close> fails with "outside of every module" exactly when
  no entry with a non-empty path contains the import path (the empty path is the
  loop's own mark for "nothing matched yet", so an entry with the empty path is never
  selected).  Otherwise the entry \<open>(k, d)\<close> with the longest path that contains the
  import path decides: the pass answers "remote" when \<open>d\<close> is empty; else, when
  \<open>k\<close> is the module's own path, it answers the local directory \<open>d\<close> itself for
  \<open>ip = k\<close> and otherwise \<open>d\<close> joined with what is left of \<open>ip\<close> after \<open>k\<close> and
  the slash; else the next pass starts from \<open>d\<close>.  \<^verbatim>\<open>resolveImport\<close> returns what
  the pass for the module of its directory answers.
\<close>

theorem resolveInModule_longest_prefix:
  assumes "distinct (map fst (mi_packages info))"
  shows "(resolveInModule info ip = Outside \<longleftrightarrow>
            \<not> (\<exists>(k, d) \<in> set (mi_packages info). k \<noteq> [] \<and> packageInsideOf ip k))
       \<and> (\<forall>k d. (k, d) \<in> set (mi_packages info) \<and> k \<noteq> [] \<and> packageInsideOf ip k
              \<and> (\<forall>(k', d') \<in> set (mi_packages info). packageInsideOf ip k' \<longrightarrow> length k' \<le> length k)
            \<longrightarrow> resolveInModule info ip =
                  (if d = [] then Remote
                   else if k = mi_path info
                     then Local (if k = ip then d else filepath_Join [d, drop (length k + 1) ip])
                   else Elsewhere d))
       \<and> (findModule (Suc n) X root pc dir = Return (info, pc1) \<longrightarrow>
            resolveImport (Suc n) X root pc dir ip =
              (case resolveInModule info ip of
                 Outside \<Rightarrow> Fail (OutsideEveryModule ip)
               | Remote \<Rightarrow> Return (([], False), pc1)
               | Local d \<Rightarrow> Return ((d, True), pc1)
               | Elsewhere d \<Rightarrow> resolveImport n X root pc1 d ip))"
proof (intro conjI allI impI)
  show "resolveInModule info ip = Outside \<longleftrightarrow>
            \<not> (\<exists>(k, d) \<in> set (mi_packages info). k \<noteq> [] \<and> packageInsideOf ip k)"
    using longestMatch_empty_iff[of ip "mi_packages info"]
    by (auto simp: resolveInModule_def split: prod.splits if_splits)
next
  fix k d
  assume h: "(k, d) \<in> set (mi_packages info) \<and> k \<noteq> [] \<and> packageInsideOf ip k
              \<and> (\<forall>(k', d') \<in> set (mi_packages info). packageInsideOf ip k' \<longrightarrow> length k' \<le> length k)"
  then have lm: "longestMatch ip (mi_packages info) ([], []) = (k, d)"
    using longestMatch_unique[OF assms] by blast
  from h have ins: "packageInsideOf ip k" by blast
  have R: "resolveInModule info ip =
      (if d = [] then Remote
       else if k = mi_path info then Local (dirForPackageInModule k d ip)
       else Elsewhere d)"
    using lm h by (simp add: resolveInModule_def)
  show "resolveInModule info ip =
                  (if d = [] then Remote
                   else if k = mi_path info
                     then Local (if k = ip then d else filepath_Join [d, drop (length k + 1) ip])
                   else Elsewhere d)"
    unfolding R dirForPackageInModule_strip[OF ins] ..
next
  assume "findModule (Suc n) X root pc dir = Return (info, pc1)"
  then show "resolveImport (Suc n) X root pc dir ip =
              (case resolveInModule info ip of
                 Outside \<Rightarrow> Fail (OutsideEveryModule ip)
               | Remote \<Rightarrow> Return (([], False), pc1)
               | Local d \<Rightarrow> Return ((d, True), pc1)
               | Elsewhere d \<Rightarrow> resolveImport n X root pc1 d ip)"
    by simp
qed

text \<open>The theorem at a module with its own path, a replaced sub-path and a remote
  requirement: \<^verbatim>\<open>a.io/m/pkg/util\<close> is found under the module root.\<close>

theorem resolveInModule_longest_prefix_witness:
  "distinct (map fst (mi_packages nested_info))
   \<and> resolveInModule nested_info ''a.io/m/pkg/util'' = Local ''/src/m/pkg/util''
   \<and> resolveImport (Suc 0) (tableExternals [] [] []) (Dir []) nested_context ''/src/m'' ''a.io/m/pkg/util''
       = Return ((''/src/m/pkg/util'', True), nested_context)"
proof -
  have d: "distinct (map fst (mi_packages nested_info))" by (simp add: nested_info_def)
  note T = resolveInModule_longest_prefix[OF d, of "''a.io/m/pkg/util''" 0 "tableExternals [] [] []"
      "Dir []" nested_context "''/src/m''" nested_context]
  have "(''a.io/m'', ''/src/m'') \<in> set (mi_packages nested_info) \<and> ''a.io/m'' \<noteq> []
        \<and> packageInsideOf ''a.io/m/pkg/util'' ''a.io/m''
        \<and> (\<forall>(k', d') \<in> set (mi_packages nested_info).
              packageInsideOf ''a.io/m/pkg/util'' k' \<longrightarrow> length k' \<le> length ''a.io/m'')"
    by (simp add: nested_info_def packageInsideOf_def hasPrefix_def)
  with T
  have "resolveInModule nested_info ''a.io/m/pkg/util'' =
          (if ''/src/m'' = [] then Remote
           else if ''a.io/m'' = mi_path nested_info
             then Local (if ''a.io/m'' = ''a.io/m/pkg/util'' then ''/src/m''
                         else filepath_Join [''/src/m'', drop (length ''a.io/m'' + 1) ''a.io/m/pkg/util''])
           else Elsewhere ''/src/m'')"
    by blast
  moreover have "filepath_Join [''/src/m'', drop (length ''a.io/m'' + 1) ''a.io/m/pkg/util'']
                   = ''/src/m/pkg/util''"
    by code_simp
  ultimately have r: "resolveInModule nested_info ''a.io/m/pkg/util'' = Local ''/src/m/pkg/util''"
    by (simp add: nested_info_def)
  have f: "findModule (Suc 0) (tableExternals [] [] []) (Dir []) nested_context ''/src/m''
             = Return (nested_info, nested_context)"
    by code_simp
  from T f r
  have "resolveImport (Suc 0) (tableExternals [] [] []) (Dir []) nested_context ''/src/m'' ''a.io/m/pkg/util''
          = Return ((''/src/m/pkg/util'', True), nested_context)"
    by simp
  with d r show ?thesis by blast
qed

text \<open>C5 as the specification words it fails where the module knows an entry with
  the empty path: that entry contains the import path \<^verbatim>\<open>/x\<close>, and the pass, and
  with it \<^verbatim>\<open>resolveImport\<close>, still fails with "outside of every module".\<close>

theorem resolveInModule_empty_path_counterexample:
  "packageInsideOf ''/x'' [] \<and> ([], ''/m'') \<in> set (mi_packages emptyPath_info)
   \<and> resolveInModule emptyPath_info ''/x'' = Outside
   \<and> resolveImport (Suc 0) (tableExternals [] [] []) (Dir []) emptyPath_context ''/m'' ''/x''
       = Fail (OutsideEveryModule ''/x'')"
  by code_simp

section \<open>Parsing a manifest\<close>

lemma bind_eq_Return: "bind r f = Return y \<longleftrightarrow> (\<exists>x. r = Return x \<and> f x = Return y)"
  by (cases r) auto

lemma map_of_recordReplace:
  "map_of (recordReplace dir (old, new, ver) pkgs) K =
     (if ver = [] \<and> stripPackageQuotes old = K
      then Some (if hasPrefix new ''/'' then new else filepath_Join [dir, new])
      else map_of pkgs K)"
  by (simp add: update_conv')

lemma map_of_fold_recordReplace_other:
  "\<forall>(o', n, v) \<in> set rs. v = [] \<longrightarrow> stripPackageQuotes o' \<noteq> K \<Longrightarrow>
   map_of (fold (recordReplace dir) rs pkgs) K = map_of pkgs K"
proof (induction rs arbitrary: pkgs)
  case Nil
  then show ?case by simp
next
  case (Cons r rs)
  obtain o' n v where r: "r = (o', n, v)" by (cases r)
  from Cons.prems have rest: "\<forall>(o', n, v) \<in> set rs. v = [] \<longrightarrow> stripPackageQuotes o' \<noteq> K"
    by simp
  from Cons.prems r have "\<not> (v = [] \<and> stripPackageQuotes o' = K)" by auto
  then have "map_of (recordReplace dir r pkgs) K = map_of pkgs K"
    unfolding r map_of_recordReplace by auto
  with Cons.IH[OF rest] show ?case by simp
qed

lemma map_of_fold_recordReplace_last:
  assumes "\<forall>(o', n, v) \<in> set after. v = [] \<longrightarrow> stripPackageQuotes o' \<noteq> stripPackageQuotes old"
  shows "map_of (fold (recordReplace dir) (before @ (old, new, []) # after) pkgs) (stripPackageQuotes old)
           = Some (if hasPrefix new ''/'' then new else filepath_Join [dir, new])"
  using map_of_fold_recordReplace_other[OF assms]
  by (simp add: map_of_recordReplace del: recordReplace.simps)

lemma map_of_fold_require:
  "map_of (fold (\<lambda>r pkgs. AList.update r [] pkgs) rs pkgs) K =
     (if K \<in> set rs then Some [] else map_of pkgs K)"
  by (induction rs arbitrary: pkgs) (auto simp: update_conv')

text \<open>A successful \<^verbatim>\<open>parseModule\<close> has read and parsed the manifest, and the module
  it returns is built from the parsed manifest alone.\<close>

lemma parseModule_Return:
  assumes "parseModule X root pc dir = Return (info, pc')"
  shows "\<exists>contents f modPath.
           os_ReadFile root (filepath_Join [dir, ''go.mod'']) = Inr contents
         \<and> modfile_Parse X contents = Some f
         \<and> mf_Module f = Some modPath
         \<and> info = \<lparr>mi_path = modPath, mi_packages = modulePackages dir modPath f\<rparr>"
proof (cases "os_ReadFile root (filepath_Join [dir, ''go.mod''])")
  case (Inl e)
  with assms show ?thesis by (simp add: parseModule_def)
next
  case (Inr contents)
  show ?thesis
  proof (cases "modfile_Parse X contents")
    case None
    with assms Inr show ?thesis by (simp add: parseModule_def)
  next
    case (Some f)
    show ?thesis
    proof (cases "mf_Module f")
      case None
      with assms Inr Some show ?thesis by (simp add: parseModule_def)
    next
      case (Some modPath)
      let ?out = "\<lparr>mi_path = modPath, mi_packages = modulePackages dir modPath f\<rparr>"
      from assms Inr \<open>modfile_Parse X contents = Some f\<close> Some
      obtain pc1 where
        r: "(case addChecksum X root pc1 (filepath_Join [dir, ''go.sum'']) of
               Return pc2 \<Rightarrow> Return (?out, pc2)
             | Fail (OsError ENOENT) \<Rightarrow> Return (?out, pc1)
             | Fail e \<Rightarrow> Fail e
             | Panic p \<Rightarrow> Panic p
             | OutOfFuel \<Rightarrow> OutOfFuel) = Return (info, pc')"
        by (auto simp: parseModule_def Let_def bind_eq_Return)
      then have "info = ?out"
        by (cases "addChecksum X root pc1 (filepath_Join [dir, ''go.sum''])")
           (auto split: error.splits oserr.splits)
      with Inr \<open>modfile_Parse X contents = Some f\<close> Some show ?thesis by simp
    qed
  qed
qed

text \<open>The entry of the module's own path is the module root as long as no
  \<^verbatim>\<open>require\<close> and no local \<^verbatim>\<open>replace\<close> directive names that path.\<close>

lemma parseModule_root_entry:
  assumes ret: "parseModule X root pc dir = Return (info, pc')"
    and rd: "os_ReadFile root (filepath_Join [dir, ''go.mod'']) = Inr contents"
    and ps: "modfile_Parse X contents = Some f"
    and req: "mi_path info \<notin> set (mf_Require f)"
    and rep: "\<forall>(o', n, v) \<in> set (mf_Replace f). v = [] \<longrightarrow> stripPackageQuotes o' \<noteq> mi_path info"
  shows "map_of (mi_packages info) (mi_path info) = Some dir"
proof -
  from parseModule_Return[OF ret] rd ps obtain modPath where
    info: "info = \<lparr>mi_path = modPath, mi_packages = modulePackages dir modPath f\<rparr>"
    by auto
  from rep info
  have "map_of (mi_packages info) modPath =
          map_of (fold (\<lambda>r pkgs. AList.update r [] pkgs) (mf_Require f) [(modPath, dir)]) modPath"
    by (simp add: modulePackages_def map_of_fold_recordReplace_other)
  also from req info have "\<dots> = Some dir"
    by (simp add: map_of_fold_require)
  finally show ?thesis using info by simp
qed

text \<open>
  C6.  The invariant \<open>packages[path] = module root\<close> is broken by a manifest that
  requires its own module path: \<^verbatim>\<open>parseModule\<close> accepts the manifest of \<^verbatim>\<open>/m\<close>
  and returns a module whose own path is marked remote (the empty directory), because
  the loop over the requirements overwrites the entry written first.
\<close>

theorem parseModule_self_require:
  "parseModule selfRequire_externals selfRequire_root emptyContext ''/m''
     = Return (\<lparr>mi_path = ''example.com/m'', mi_packages = [(''example.com/m'', [])]\<rparr>,
               \<lparr>checksums = [(''/m/go.mod'', selfRequire_gomod)], pc_packages = [], modules = []\<rparr>)"
  by code_simp

text \<open>
  C8.  The loop body stores a version-less replacement under the old path stripped
  of quotes: verbatim when the new path begins with a slash, joined to the module
  directory otherwise; a replacement with a version leaves the map as it is.  After
  a successful \<^verbatim>\<open>parseModule\<close> the returned map holds that directory for every
  version-less \<^verbatim>\<open>replace\<close> directive that no later version-less directive for
  the same old path overwrites.
\<close>

theorem parseModule_local_replace:
  "(\<forall>pkgs. map_of (recordReplace dir (old, new, []) pkgs) (stripPackageQuotes old)
              = Some (if hasPrefix new ''/'' then new else filepath_Join [dir, new]))
   \<and> (\<forall>ver pkgs. ver \<noteq> [] \<longrightarrow> recordReplace dir (old, new, ver) pkgs = pkgs)
   \<and> (parseModule X root pc dir = Return (info, pc')
        \<and> os_ReadFile root (filepath_Join [dir, ''go.mod'']) = Inr contents
        \<and> modfile_Parse X contents = Some f
        \<and> mf_Replace f = before @ (old, new, []) # after
        \<and> (\<forall>(o', n, v) \<in> set after. v = [] \<longrightarrow> stripPackageQuotes o' \<noteq> stripPackageQuotes old)
      \<longrightarrow> map_of (mi_packages info) (stripPackageQuotes old)
            = Some (if hasPrefix new ''/'' then new else filepath_Join [dir, new]))"
proof (intro conjI allI impI)
  fix pkgs
  show "map_of (recordReplace dir (old, new, []) pkgs) (stripPackageQuotes old)
          = Some (if hasPrefix new ''/'' then new else filepath_Join [dir, new])"
    by (simp add: map_of_recordReplace del: recordReplace.simps)
next
  fix ver :: string and pkgs
  assume "ver \<noteq> []"
  then show "recordReplace dir (old, new, ver) pkgs = pkgs" by simp
next
  assume h: "parseModule X root pc dir = Return (info, pc')
        \<and> os_ReadFile root (filepath_Join [dir, ''go.mod'']) = Inr contents
        \<and> modfile_Parse X contents = Some f
        \<and> mf_Replace f = before @ (old, new, []) # after
        \<and> (\<forall>(o', n, v) \<in> set after. v = [] \<longrightarrow> stripPackageQuotes o' \<noteq> stripPackageQuotes old)"
  then have ret: "parseModule X root pc dir = Return (info, pc')" by blast
  from parseModule_Return[OF ret] h obtain modPath where
    info: "info = \<lparr>mi_path = modPath, mi_packages = modulePackages dir modPath f\<rparr>"
    by auto
  from h have later: "\<forall>(o', n, v) \<in> set after. v = [] \<longrightarrow> stripPackageQuotes o' \<noteq> stripPackageQuotes old"
    by blast
  from h have sp: "mf_Replace f = before @ (old, new, []) # after" by blast
  have "mi_packages info =
          fold (recordReplace dir) (before @ (old, new, []) # after)
            (fold (\<lambda>r pkgs. AList.update r [] pkgs) (mf_Require f) [(modPath, dir)])"
    unfolding info modulePackages_def sp by simp
  then show "map_of (mi_packages info) (stripPackageQuotes old)
            = Some (if hasPrefix new ''/'' then new else filepath_Join [dir, new])"
    by (simp only: map_of_fold_recordReplace_last[OF later])
qed

text \<open>The theorem at the manifest of \<^verbatim>\<open>/w/m\<close>: the relative target \<^verbatim>\<open>../b\<close> is
  stored as \<^verbatim>\<open>/w/b\<close>.\<close>

theorem parseModule_local_replace_witness:
  "parseModule replaces_externals replaces_root emptyContext ''/w/m''
     = Return (\<lparr>mi_path = ''example.com/m'',
                 mi_packages = [(''example.com/m'', ''/w/m''), (''example.com/a'', ''/opt/a''),
                                (''example.com/b'', ''/w/b'')]\<rparr>,
               \<lparr>checksums = [(''/w/m/go.mod'', replaces_gomod)], pc_packages = [], modules = []\<rparr>)
   \<and> map_of [(''example.com/m'', ''/w/m''), (''example.com/a'', ''/opt/a''), (''example.com/b'', ''/w/b'')]
        ''example.com/b'' = Some ''/w/b''"
proof -
  let ?info = "\<lparr>mi_path = ''example.com/m'',
                 mi_packages = [(''example.com/m'', ''/w/m''), (''example.com/a'', ''/opt/a''),
                                (''example.com/b'', ''/w/b'')]\<rparr>"
  let ?pc = "\<lparr>checksums = [(''/w/m/go.mod'', replaces_gomod)], pc_packages = [], modules = []\<rparr>"
  have ret: "parseModule replaces_externals replaces_root emptyContext ''/w/m'' = Return (?info, ?pc)"
    by code_simp
  have rd: "os_ReadFile replaces_root (filepath_Join [''/w/m'', ''go.mod'']) = Inr replaces_gomod"
    by code_simp
  have ps: "modfile_Parse replaces_externals replaces_gomod = Some replaces_modfile"
    by (simp add: replaces_externals_def tableExternals_def)
  have sp: "mf_Replace replaces_modfile =
              [(''example.com/a'', ''/opt/a'', [])] @ (''example.com/b'', ''../b'', []) #
              [(''example.com/c'', ''example.com/fork'', ''v1.2.0'')]"
    by (simp add: replaces_modfile_def)
  have later: "\<forall>(o', n, v) \<in> set [(''example.com/c'', ''example.com/fork'', ''v1.2.0'')].
                 v = [] \<longrightarrow> stripPackageQuotes o' \<noteq> stripPackageQuotes ''example.com/b''"
    by simp
  from parseModule_local_replace[of "''/w/m''" "''example.com/b''" "''../b''"
         replaces_externals replaces_root emptyContext ?info ?pc replaces_gomod replaces_modfile
         "[(''example.com/a'', ''/opt/a'', [])]" "[(''example.com/c'', ''example.com/fork'', ''v1.2.0'')]"]
       ret rd ps sp later
  have "map_of (mi_packages ?info) (stripPackageQuotes ''example.com/b'')
          = Some (if hasPrefix ''../b'' ''/'' then ''../b'' else filepath_Join [''/w/m'', ''../b''])"
    by blast
  moreover have "stripPackageQuotes ''example.com/b'' = ''example.com/b''" by code_simp
  moreover have "filepath_Join [''/w/m'', ''../b''] = ''/w/b''" by code_simp
  moreover have "\<not> hasPrefix ''../b'' ''/''" by code_simp
  ultimately show ?thesis using ret by simp
qed

section \<open>The loop of import resolution\<close>

text \<open>In \<^verbatim>\<open>/a\<close> the first search parses the manifest and fills the cache; every
  later search is answered from the cache and leaves the context as it is.\<close>

lemma selfReplace_findModule_first:
  "findModule (Suc n) selfReplace_externals selfReplace_root emptyContext ''/a''
     = Return (selfReplace_info, selfReplace_context)"
proof -
  have j: "filepath_Join [''/a'', ''go.mod''] = ''/a/go.mod''" by code_simp
  have st: "os_Stat selfReplace_root ''/a/go.mod'' = Inr ModeRegular" by code_simp
  have pm: "parseModule selfReplace_externals selfReplace_root emptyContext ''/a''
              = Return (selfReplace_info,
                  \<lparr>checksums = [(''/a/go.mod'', selfReplace_gomod)], pc_packages = [], modules = []\<rparr>)"
    by code_simp
  have me: "map_of (modules emptyContext) ''/a'' = None" by (simp add: emptyContext_def)
  show ?thesis
    by (simp add: findModule_def j st pm me backfill_def selfReplace_context_def)
qed

lemma selfReplace_findModule_cached:
  "findModule (Suc n) selfReplace_externals selfReplace_root selfReplace_context ''/a''
     = Return (selfReplace_info, selfReplace_context)"
  by (simp add: findModule_def selfReplace_context_def backfill_def)

text \<open>The longest match for \<^verbatim>\<open>example.com/x/pkg\<close> is the replaced path, whose
  directory is neither empty nor listed under the module's own path: the next pass
  starts from \<^verbatim>\<open>/a\<close> again.\<close>

lemma selfReplace_hop:
  "resolveInModule selfReplace_info ''example.com/x/pkg'' = Elsewhere ''/a''"
  by code_simp

lemma selfReplace_loops:
  "resolveImport n selfReplace_externals selfReplace_root selfReplace_context ''/a'' ''example.com/x/pkg''
     = OutOfFuel"
  by (induction n) (simp_all add: selfReplace_findModule_cached selfReplace_hop)

text \<open>
  C2.  \<^verbatim>\<open>resolveImport\<close> does not terminate on every input.  With the manifest
  \<^verbatim>\<open>module example.com/a\<close>, \<^verbatim>\<open>replace example.com/x => ./\<close> in \<^verbatim>\<open>/a\<close>, resolving
  \<^verbatim>\<open>example.com/x/pkg\<close> from \<^verbatim>\<open>/a\<close> with an empty context runs out of every
  amount of fuel: each pass leaves the loop neither by a result nor by an error, and
  the root of the next pass is the root of this one.
\<close>

theorem resolveImport_self_replace_never_returns:
  "\<forall>n. resolveImport n selfReplace_externals selfReplace_root emptyContext ''/a'' ''example.com/x/pkg''
     = OutOfFuel"
proof
  fix n
  show "resolveImport n selfReplace_externals selfReplace_root emptyContext ''/a'' ''example.com/x/pkg''
     = OutOfFuel"
    by (cases n) (simp_all add: selfReplace_findModule_first selfReplace_hop selfReplace_loops)
qed

section \<open>Imports that are skipped\<close>

lemma not_lower_sep: "\<not> isLower (CHR ''/'')" "\<not> isLower dquote"
  by (simp_all add: isLower_def dquote_def)

text \<open>What the expression matches: a double quote, a non-empty run of lower-case
  letters, and then a slash or a double quote.\<close>

lemma stdlibPackageRE_iff:
  "stdlibPackageRE lit \<longleftrightarrow>
     (\<exists>seg c rest. lit = dquote # seg @ c # rest \<and> seg \<noteq> [] \<and> list_all isLower seg
        \<and> (c = CHR ''/'' \<or> c = dquote))"
proof
  assume m: "stdlibPackageRE lit"
  then obtain rest where lit: "lit = dquote # rest"
    by (cases lit) (auto simp: stdlibPackageRE_def)
  let ?seg = "takeWhile isLower rest"
  from m lit have seg: "?seg \<noteq> []" by (simp add: stdlibPackageRE_def)
  from m lit obtain c r where dr: "dropWhile isLower rest = c # r" and c: "c = CHR ''/'' \<or> c = dquote"
    by (cases "dropWhile isLower rest") (auto simp: stdlibPackageRE_def)
  have "rest = ?seg @ c # r" using dr by (metis takeWhile_dropWhile_id)
  moreover have "list_all isLower ?seg"
    by (simp add: list_all_iff) (meson set_takeWhileD)
  ultimately show "\<exists>seg c rest. lit = dquote # seg @ c # rest \<and> seg \<noteq> [] \<and> list_all isLower seg
        \<and> (c = CHR ''/'' \<or> c = dquote)"
    using lit seg c by blast
next
  assume "\<exists>seg c rest. lit = dquote # seg @ c # rest \<and> seg \<noteq> [] \<and> list_all isLower seg
        \<and> (c = CHR ''/'' \<or> c = dquote)"
  then obtain seg c rest where lit: "lit = dquote # seg @ c # rest" and ne: "seg \<noteq> []"
    and lo: "list_all isLower seg" and c: "c = CHR ''/'' \<or> c = dquote"
    by blast
  from c have nl: "\<not> isLower c" using not_lower_sep by auto
  from lo have all: "\<And>x. x \<in> set seg \<Longrightarrow> isLower x" by (simp add: list_all_iff)
  have tw: "takeWhile isLower (seg @ c # rest) = seg"
    using all nl by (simp add: takeWhile_append2)
  have dw: "dropWhile isLower (seg @ c # rest) = c # rest"
    using all nl by (simp add: dropWhile_append2)
  show "stdlibPackageRE lit"
    unfolding lit stdlibPackageRE_def using ne c by (simp add: tw dw)
qed

text \<open>The expression is written for the paths of the standard library, and it
  matches them whether they have one segment or several: \<^verbatim>\<open>"net/http"\<close> is skipped
  as \<^verbatim>\<open>"fmt"\<close> is.  It asks for a double quote, so that an import written as a
  back-quoted literal is not skipped, and \<^verbatim>\<open>stripPackageQuotes\<close> leaves its back
  quotes on.\<close>

lemma stdlibPackageRE_net_http:
  "stdlibPackageRE ([dquote] @ ''net/http'' @ [dquote])
   \<and> splitOn (CHR ''/'') (stripPackageQuotes ([dquote] @ ''net/http'' @ [dquote])) = [''net'', ''http'']
   \<and> importLoop (\<lambda>pc d. Return pc) 1 (tableExternals [] [] []) (Dir []) ''/a''
        [[dquote] @ ''net/http'' @ [dquote]] emptyContext = Return emptyContext"
  by code_simp

lemma stdlibPackageRE_back_quoted:
  "\<not> stdlibPackageRE ([bquote] @ ''fmt'' @ [bquote])
   \<and> stripPackageQuotes ([bquote] @ ''fmt'' @ [bquote]) = [bquote] @ ''fmt'' @ [bquote]"
  by code_simp

text \<open>
  C3.  Not every import with more than one segment is handed to
  \<^verbatim>\<open>resolveImport\<close>: the expression also matches the import of a package of the
  program's own module when the first segment of the module path is made of
  lower-case letters.  In \<^verbatim>\<open>/a\<close> the module is \<^verbatim>\<open>myapp\<close> and \<^verbatim>\<open>main.go\<close> imports
  \<^verbatim>\<open>"myapp/sub"\<close>.  The literal matches, the import loop goes on to the next import
  without resolving this one, \<^verbatim>\<open>/a/sub/sub.go\<close> is not among the files hashed, and
  the digest is the same whatever that file holds.  With the module path
  \<^verbatim>\<open>my.app\<close> the literal does not match and the file is hashed.
\<close>

theorem parsePackage_skips_own_package:
  "stdlibPackageRE ([dquote] @ ''myapp/sub'' @ [dquote])
   \<and> importLoop rec k X root dir [[dquote] @ ''myapp/sub'' @ [dquote]] pc = Return pc
   \<and> packageSourceChecksums (Suc n) (ownImport_externals ''myapp'') (ownImport_root ''myapp'' src) ''/a''
        = Return [(''/a/go.mod'', ownImport_gomod ''myapp''), (''/a/main.go'', ownImport_main ''myapp'')]
   \<and> checksum (Suc n) (ownImport_externals ''myapp'') render (ownImport_root ''myapp'' src) ''/a'' flags env
        = Return (checksumOf (ownImport_externals ''myapp'') render
            [(''/a/go.mod'', ownImport_gomod ''myapp''), (''/a/main.go'', ownImport_main ''myapp'')]
            flags env)
   \<and> \<not> stdlibPackageRE ([dquote] @ ''my.app/sub'' @ [dquote])
   \<and> packageSourceChecksums (Suc (Suc (Suc n))) (ownImport_externals ''my.app'')
          (ownImport_root ''my.app'' ownImport_sub) ''/a''
        = Return [(''/a/go.mod'', ownImport_gomod ''my.app''), (''/a/main.go'', ownImport_main ''my.app''),
                  (''/a/sub/sub.go'', ownImport_sub)]"
proof -
  have a: "stdlibPackageRE ([dquote] @ ''myapp/sub'' @ [dquote])" by code_simp
  then have s: "importLoop rec k X root dir [[dquote] @ ''myapp/sub'' @ [dquote]] pc = Return pc"
    by simp
  have b: "packageSourceChecksums (Suc n) (ownImport_externals ''myapp'') (ownImport_root ''myapp'' src) ''/a''
        = Return [(''/a/go.mod'', ownImport_gomod ''myapp''), (''/a/main.go'', ownImport_main ''myapp'')]"
    by code_simp
  then have e: "checksum (Suc n) (ownImport_externals ''myapp'') render (ownImport_root ''myapp'' src)
          ''/a'' flags env
        = Return (checksumOf (ownImport_externals ''myapp'') render
            [(''/a/go.mod'', ownImport_gomod ''myapp''), (''/a/main.go'', ownImport_main ''myapp'')]
            flags env)"
    by (simp add: checksum_def)
  have c: "\<not> stdlibPackageRE ([dquote] @ ''my.app/sub'' @ [dquote])" by code_simp
  have d: "packageSourceChecksums (Suc (Suc (Suc n))) (ownImport_externals ''my.app'')
          (ownImport_root ''my.app'' ownImport_sub) ''/a''
        = Return [(''/a/go.mod'', ownImport_gomod ''my.app''), (''/a/main.go'', ownImport_main ''my.app''),
                  (''/a/sub/sub.go'', ownImport_sub)]"
    by code_simp
  from a s b e c d show ?thesis by blast
qed

section \<open>Hashing a file twice\<close>

text \<open>
  C4.  The branch of \<^verbatim>\<open>addChecksum\<close> that panics is reachable.  In \<^verbatim>\<open>/a\<close> the
  file \<^verbatim>\<open>main.go\<close> carries the directive \<^verbatim>\<open>//go:embed main.go\<close>.  The source walk
  hashes \<^verbatim>\<open>/a/main.go\<close>, \<^verbatim>\<open>resolveEmbed\<close> returns \<^verbatim>\<open>main.go\<close>, and the last
  loop of \<^verbatim>\<open>parsePackage\<close> asks for the checksum of \<^verbatim>\<open>/a/main.go\<close> again: with
  any fuel but none the computation panics.
\<close>

theorem parsePackage_embedded_source_panics:
  "parsePackage (Suc n) embedSelf_externals embedSelf_root emptyContext ''/a''
     = Panic (ChecksumTwice ''/a/main.go'')"
  by code_simp

section \<open>The fingerprint and the order of maps\<close>

lemma filter_same_key:
  assumes "distinct (map f xs)" and "e \<in> set xs"
  shows "filter (\<lambda>x. f e = f x) xs = [e]"
  using assms
proof (induction xs)
  case Nil
  then show ?case by simp
next
  case (Cons x xs)
  from Cons.prems(1) have "f x \<notin> f ` set xs" by simp
  then have nk: "\<forall>y \<in> set xs. f y \<noteq> f x" by (metis imageI)
  from Cons.prems(1) have dxs: "distinct (map f xs)" by simp
  show ?case
  proof (cases "e = x")
    case True
    from nk have "filter (\<lambda>y. f x = f y) xs = []"
      by (auto simp: filter_empty_conv)
    with True show ?thesis by simp
  next
    case False
    with Cons.prems have mem: "e \<in> set xs" by simp
    with nk have "f e \<noteq> f x" by blast
    with Cons.IH[OF dxs mem] show ?thesis by simp
  qed
qed

text \<open>Two association lists with distinct keys that stand for the same map are
  sorted by key into the same list.\<close>

lemma sort_key_fst_unique:
  assumes dx: "distinct (map fst xs)" and dy: "distinct (map fst ys)"
    and eq: "map_of xs = map_of ys"
  shows "sort_key fst xs = sort_key fst ys"
proof (rule properties_for_sort_key)
  from eq have s: "set xs = set ys"
    using map_of_inject_set[OF dx dy] by simp
  from dx dy have "distinct xs" "distinct ys" by (auto simp: distinct_map)
  with s have m: "mset xs = mset ys"
    using set_eq_iff_mset_eq_distinct by blast
  then show "mset (sort_key fst ys) = mset xs" by simp
  show "sorted (map fst (sort_key fst ys))" by simp
  fix k
  assume "k \<in> set (sort_key fst ys)"
  then have ky: "k \<in> set ys" by simp
  with s have kx: "k \<in> set xs" by simp
  have "filter (\<lambda>x. fst k = fst x) (sort_key fst ys) = sort_key fst (filter (\<lambda>x. fst k = fst x) ys)"
    by (rule filter_sort)
  also have "\<dots> = [k]" by (simp add: filter_same_key[OF dy ky])
  also have "\<dots> = filter (\<lambda>x. fst k = fst x) xs" by (simp add: filter_same_key[OF dx kx])
  finally show "filter (\<lambda>x. fst k = fst x) (sort_key fst ys) = filter (\<lambda>x. fst k = fst x) xs" .
qed

lemma marshalMap_order:
  assumes "distinct (map fst xs)" and "distinct (map fst ys)" and "map_of xs = map_of ys"
  shows "marshalMap xs = marshalMap ys"
  using sort_key_fst_unique[OF assms] by (simp add: marshalMap_def)

text \<open>
  C7.  The digest is a function of the file hashes, the flags and the environment
  values, so equal inputs give equal digests.  It does not depend on the order in
  which the two maps are iterated: two association lists that stand for the same
  map give the same digest, also through \<^verbatim>\<open>checksum\<close> itself.  The flags keep their
  order in the value that is hashed: exchanging two different flags changes that
  value, and with the plain encoding and the identity for SHA-256 it changes the
  digest.
\<close>

theorem checksum_order_of_maps_and_flags:
  assumes "distinct (map fst files)" and "distinct (map fst files')" and "map_of files = map_of files'"
    and "distinct (map fst env)" and "distinct (map fst env')" and "map_of env = map_of env'"
  shows "checksumOf X render files flags env = checksumOf X render files' flags env'
     \<and> (packageSourceChecksums n X root dir = Return files \<longrightarrow>
          checksum n X render root dir flags env = Return (checksumOf X render files' flags env'))
     \<and> (a \<noteq> b \<longrightarrow> checksumInput files [a, b] env \<noteq> checksumInput files [b, a] env)
     \<and> checksumOf (tableExternals [] [] []) renderPlain [] [''-race'', ''-v''] []
          \<noteq> checksumOf (tableExternals [] [] []) renderPlain [] [''-v'', ''-race''] []"
proof (intro conjI impI)
  show eq: "checksumOf X render files flags env = checksumOf X render files' flags env'"
    using marshalMap_order[OF assms(1-3)] marshalMap_order[OF assms(4-6)]
    by (simp add: checksumOf_def checksumInput_def)
  show "checksum n X render root dir flags env = Return (checksumOf X render files' flags env')"
    if "packageSourceChecksums n X root dir = Return files"
    using that eq by (simp add: checksum_def)
  show "checksumInput files [a, b] env \<noteq> checksumInput files [b, a] env" if "a \<noteq> b"
    using that by (simp add: checksumInput_def marshalStrings_def)
  show "checksumOf (tableExternals [] [] []) renderPlain [] [''-race'', ''-v''] []
          \<noteq> checksumOf (tableExternals [] [] []) renderPlain [] [''-v'', ''-race''] []"
    by code_simp
qed

text \<open>The theorem at two files and two environment values, each map listed in
  both orders.\<close>

theorem checksum_order_of_maps_and_flags_witness:
  "checksumOf (tableExternals [] [] []) renderPlain
      [(''/a/main.go'', ''9f86''), (''/a/go.mod'', ''60b7'')] [''-race'']
      [(''GOOS'', ''linux''), (''CGO_ENABLED'', ''0'')]
   = checksumOf (tableExternals [] [] []) renderPlain
      [(''/a/go.mod'', ''60b7''), (''/a/main.go'', ''9f86'')] [''-race'']
      [(''CGO_ENABLED'', ''0''), (''GOOS'', ''linux'')]"
proof -
  have 1: "distinct (map fst [(''/a/main.go'', ''9f86''), (''/a/go.mod'', ''60b7'')])" by simp
  have 2: "distinct (map fst [(''/a/go.mod'', ''60b7''), (''/a/main.go'', ''9f86'')])" by simp
  have 3: "map_of [(''/a/main.go'', ''9f86''), (''/a/go.mod'', ''60b7'')]
             = map_of [(''/a/go.mod'', ''60b7''), (''/a/main.go'', ''9f86'')]"
    by (rule ext) simp
  have 4: "distinct (map fst [(''GOOS'', ''linux''), (''CGO_ENABLED'', ''0'')])" by simp
  have 5: "distinct (map fst [(''CGO_ENABLED'', ''0''), (''GOOS'', ''linux'')])" by simp
  have 6: "map_of [(''GOOS'', ''linux''), (''CGO_ENABLED'', ''0'')]
             = map_of [(''CGO_ENABLED'', ''0''), (''GOOS'', ''linux'')]"
    by (rule ext) simp
  from checksum_order_of_maps_and_flags[OF 1 2 3 4 5 6] show ?thesis by blast
qed

section \<open>Embed patterns that match nothing\<close>

lemma es_count_noteFile [simp]: "es_count (noteFile rel pid st) = es_count st"
  by (simp add: noteFile_def)

lemma length_embeddableEntries_insort:
  "length (embeddableEntries X root file all p (insort_key fst e es))
     = length (embeddableEntries X root file all p (e # es))"
proof (induction es)
  case Nil
  then show ?case by simp
next
  case (Cons x es)
  obtain a b where e: "e = (a, b)" by (cases e)
  obtain c d where x: "x = (c, d)" by (cases x)
  from Cons e x show ?case by auto
qed

lemma length_embeddableEntries_dirEntries:
  "length (embeddableEntries X root file all p (dirEntries cs))
     = length (embeddableEntries X root file all p cs)"
proof (induction cs)
  case Nil
  then show ?case by (simp add: dirEntries_def)
next
  case (Cons c cs)
  obtain a b where c: "c = (a, b)" by (cases c)
  have "length (embeddableEntries X root file all p (dirEntries (c # cs)))
          = length (embeddableEntries X root file all p (c # dirEntries cs))"
    by (simp add: dirEntries_def length_embeddableEntries_insort)
  with Cons c show ?case by simp
qed

text \<open>The walk function, case by case of the node.\<close>

lemma walkFn_cases:
  "walkFn X root pkgdir file all pid p name n st =
     (if p \<noteq> file \<and> (isBadEmbedName X name \<or> (hiddenName name \<and> \<not> all))
      then (case n of Dir cs \<Rightarrow> WalkSkipDir st | _ \<Rightarrow> WalkNil st)
      else (case n of
              Dir cs \<Rightarrow> (case os_Stat root (filepath_Join [p, ''go.mod'']) of
                           Inr _ \<Rightarrow> WalkSkipDir st | Inl _ \<Rightarrow> WalkNil st)
            | Special \<Rightarrow> WalkNil st
            | File bytes \<Rightarrow>
                WalkNil (noteFile (strTrimFilePathPrefix p pkgdir) pid (st\<lparr>es_count := es_count st + 1\<rparr>))))"
  by (cases n) (simp_all add: walkFn_def)

text \<open>The walk counts exactly the eligible files below the node, and only a
  directory makes it return \<^verbatim>\<open>SkipDir\<close>, so that no entry after a skipped one is
  left out.\<close>

lemma fsyswalk_count:
  "(\<forall>st1. fsyswalk X root pkgdir file all pid p name n st = WalkSkipDir st1 \<longrightarrow> modeOf n = ModeDir)
   \<and> es_count (walkState (fsyswalk X root pkgdir file all pid p name n st))
       = es_count st + length (embeddable X root file all p name n)"
  and fsyswalkEntries_count:
  "(\<exists>st1. fsyswalkEntries X root pkgdir file all pid p es st = WalkNil st1)
   \<and> es_count (walkState (fsyswalkEntries X root pkgdir file all pid p es st))
       = es_count st + length (embeddableEntries X root file all p es)"
proof (induction X root pkgdir "file" all pid p name n st and X root pkgdir "file" all pid p es st
       rule: fsyswalk_fsyswalkEntries.induct)
  case (1 X root pkgdir f all pid p name n st)
  show ?case
  proof (cases n)
    case (File bytes)
    then show ?thesis
      by (simp add: fsyswalk.simps walkFn_cases)
  next
    case Special
    then show ?thesis
      by (simp add: fsyswalk.simps walkFn_cases)
  next
    case (Dir cs)
    show ?thesis
    proof (cases "walkFn X root pkgdir f all pid p name n st")
      case (WalkSkipDir st1)
      with Dir show ?thesis
        by (auto simp: fsyswalk.simps walkFn_cases split: if_splits sum.splits)
    next
      case (WalkNil st1)
      with Dir have st1: "st1 = st"
        by (auto simp: walkFn_cases split: if_splits sum.splits)
      from WalkNil Dir have emb: "embeddable X root f all p name n = embeddableEntries X root f all p cs"
        by (auto simp: walkFn_cases split: if_splits sum.splits)
      from "1.IH"[OF WalkNil Dir] WalkNil Dir st1 emb show ?thesis
        by (auto simp: fsyswalk.simps length_embeddableEntries_dirEntries)
    qed
  qed
next
  case (2 X root pkgdir f all pid p st)
  then show ?case by simp
next
  case (3 X root pkgdir f all pid p name n rest st)
  show ?case
  proof (cases "fsyswalk X root pkgdir f all pid (filepath_Join [p, name]) name n st")
    case (WalkNil st1)
    with "3.IH"(1) "3.IH"(2)[OF WalkNil] show ?thesis by simp
  next
    case (WalkSkipDir st1)
    with "3.IH"(1) have d: "modeOf n = ModeDir" by simp
    with "3.IH"(1) "3.IH"(3)[OF WalkSkipDir d] WalkSkipDir show ?thesis by simp
  qed
qed


text \<open>The loops of \<^verbatim>\<open>resolveEmbed\<close> return or fail; they neither panic nor
  run on.\<close>

lemma boundaryLoop_finishes:
  "(\<exists>d. boundaryLoop X root pkgdir f dir dirOK = Return d)
   \<or> (\<exists>e. boundaryLoop X root pkgdir f dir dirOK = Fail e)"
proof (induction X root pkgdir f dir dirOK rule: boundaryLoop.induct)
  case (1 X root pkgdir f dir dirOK)
  show ?case
  proof (cases "length dir > length pkgdir + 1 \<and> \<not> lookupBool dirOK dir")
    case False
    then show ?thesis by (subst boundaryLoop.simps) auto
  next
    case c: True
    show ?thesis
    proof (cases "os_Stat root (filepath_Join [dir, ''go.mod''])")
      case (Inr m)
      with c show ?thesis by (subst boundaryLoop.simps) simp
    next
      case (Inl x)
      show ?thesis
      proof (cases "dir \<noteq> f \<and> (case os_Stat root dir of Inr m \<Rightarrow> m \<noteq> ModeDir | Inl _ \<Rightarrow> False)")
        case True
        with c Inl show ?thesis by (subst boundaryLoop.simps) simp
      next
        case nd: False
        show ?thesis
        proof (cases "isBadEmbedName X (filepath_Base dir)")
          case True
          with c Inl nd show ?thesis by (subst boundaryLoop.simps) simp
        next
          case False
          from "1.IH"[OF c Inl nd False] c Inl nd False show ?thesis
            by (subst (1 2) boundaryLoop.simps) simp
        qed
      qed
    qed
  qed
qed

lemma fsysWalk_Dir:
  assumes "fs_lookup root f = Inr (Dir cs)"
  shows "\<exists>st1. fsysWalk X root pkgdir f all pid st = Inr st1
           \<and> es_count st1 = es_count st
               + length (embeddable X root f all f (filepath_Base f) (Dir cs))"
proof -
  let ?r = "fsyswalk X root pkgdir f all pid f (filepath_Base f) (Dir cs) st"
  have c: "es_count (walkState ?r)
             = es_count st + length (embeddable X root f all f (filepath_Base f) (Dir cs))"
    using fsyswalk_count[of X root pkgdir f all pid f "filepath_Base f" "Dir cs" st] by blast
  show ?thesis
  proof (cases ?r)
    case (WalkNil st1)
    with c assms show ?thesis by (simp add: fsysWalk_def)
  next
    case (WalkSkipDir st1)
    with c assms show ?thesis by (simp add: fsysWalk_def)
  qed
qed

lemma embedMatch_emptyDir:
  assumes l: "fs_lookup root f = Inr (Dir cs)"
    and e: "embeddable X root f all f (filepath_Base f) (Dir cs) = []"
  shows "\<exists>e. embedMatch X root pkgdir all pid f s = Fail e"
proof -
  obtain st dirOK where s: "s = (st, dirOK)" by (cases s)
  from l have stat: "os_Stat root f = Inr ModeDir" by (simp add: os_Stat_def)
  from fsysWalk_Dir[OF l, of X pkgdir all pid "st\<lparr>es_count := 0\<rparr>"] e
  obtain st1 where w: "fsysWalk X root pkgdir f all pid (st\<lparr>es_count := 0\<rparr>) = Inr st1"
    and c: "es_count st1 = 0" by auto
  from boundaryLoop_finishes[of X root pkgdir f f dirOK] show ?thesis
  proof
    assume "\<exists>d. boundaryLoop X root pkgdir f f dirOK = Return d"
    then obtain d where "boundaryLoop X root pkgdir f f dirOK = Return d" ..
    with s stat w c show ?thesis by (simp add: embedMatch_def)
  next
    assume "\<exists>e. boundaryLoop X root pkgdir f f dirOK = Fail e"
    then obtain e where "boundaryLoop X root pkgdir f f dirOK = Fail e" ..
    with s stat show ?thesis by (simp add: embedMatch_def)
  qed
qed

lemma embedMatch_finishes:
  "(\<exists>t. embedMatch X root pkgdir all pid f s = Return t)
   \<or> (\<exists>e. embedMatch X root pkgdir all pid f s = Fail e)"
proof -
  obtain st dirOK where s: "s = (st, dirOK)" by (cases s)
  show ?thesis
  proof (cases "os_Stat root f")
    case (Inl x)
    with s show ?thesis by (simp add: embedMatch_def)
  next
    case (Inr mode)
    from boundaryLoop_finishes[of X root pkgdir f f dirOK] show ?thesis
    proof
      assume "\<exists>e. boundaryLoop X root pkgdir f f dirOK = Fail e"
      then obtain e where "boundaryLoop X root pkgdir f f dirOK = Fail e" ..
      with s Inr show ?thesis by (simp add: embedMatch_def)
    next
      assume "\<exists>d. boundaryLoop X root pkgdir f f dirOK = Return d"
      then obtain d where b: "boundaryLoop X root pkgdir f f dirOK = Return d" ..
      show ?thesis
      proof (cases "fsysWalk X root pkgdir f all pid (st\<lparr>es_count := 0\<rparr>)")
        case (Inl x)
        with s Inr b show ?thesis by (simp add: embedMatch_def)
      next
        case w: (Inr st1)
        with s Inr b show ?thesis by (simp add: embedMatch_def)
      qed
    qed
  qed
qed

lemma embedMatches_finishes:
  "(\<exists>t. embedMatches X root pkgdir all pid fs s = Return t)
   \<or> (\<exists>e. embedMatches X root pkgdir all pid fs s = Fail e)"
proof (induction fs arbitrary: s)
  case Nil
  then show ?case by simp
next
  case (Cons f fs)
  from embedMatch_finishes[of X root pkgdir all pid f s] show ?case
  proof
    assume "\<exists>t. embedMatch X root pkgdir all pid f s = Return t"
    then obtain t where "embedMatch X root pkgdir all pid f s = Return t" ..
    with Cons.IH[of t] show ?thesis by simp
  next
    assume "\<exists>e. embedMatch X root pkgdir all pid f s = Fail e"
    then obtain e where "embedMatch X root pkgdir all pid f s = Fail e" ..
    then show ?thesis by simp
  qed
qed

lemma embedMatches_emptyDir:
  "list_ex (emptyDirAt X root all) fs \<Longrightarrow> \<exists>e. embedMatches X root pkgdir all pid fs s = Fail e"
proof (induction fs arbitrary: s)
  case Nil
  then show ?case by simp
next
  case (Cons f fs)
  show ?case
  proof (cases "emptyDirAt X root all f")
    case True
    then obtain cs where "fs_lookup root f = Inr (Dir cs)"
      and "embeddable X root f all f (filepath_Base f) (Dir cs) = []"
      by (auto simp: emptyDirAt_def split: sum.splits node.splits)
    from embedMatch_emptyDir[OF this, of pkgdir pid s]
    obtain e where "embedMatch X root pkgdir all pid f s = Fail e" ..
    then show ?thesis by simp
  next
    case False
    with Cons.prems have later: "list_ex (emptyDirAt X root all) fs" by simp
    from embedMatch_finishes[of X root pkgdir all pid f s] show ?thesis
    proof
      assume "\<exists>t. embedMatch X root pkgdir all pid f s = Return t"
      then obtain t where "embedMatch X root pkgdir all pid f s = Return t" ..
      with Cons.IH[OF later, of t] show ?thesis by simp
    next
      assume "\<exists>e. embedMatch X root pkgdir all pid f s = Fail e"
      then obtain e where "embedMatch X root pkgdir all pid f s = Fail e" ..
      then show ?thesis by simp
    qed
  qed
qed

lemma resolveEmbedLoop_fatal:
  "list_ex (\<lambda>pattern. embedMatchesOf X pkgdir pattern = [] \<or> emptyDirMatch X root pkgdir pattern) patterns
   \<Longrightarrow> \<exists>e. resolveEmbedLoop X root pkgdir patterns pid hav dirOK pmap = Fail e"
proof (induction patterns arbitrary: pid hav dirOK pmap)
  case Nil
  then show ?case by simp
next
  case (Cons pattern rest)
  obtain glob all where cp: "cutPrefix pattern ''all:'' = (glob, all)" by force
  show ?case
  proof (cases "\<not> path_Match_ok X glob \<or> \<not> validEmbedPattern X glob")
    case True
    with cp show ?thesis by auto
  next
    case valid: False
    show ?thesis
    proof (cases "filepath_Glob X (globFor pkgdir glob)")
      case None
      with cp valid show ?thesis by auto
    next
      case (Some match)
      let ?s0 = "(\<lparr>es_have = hav, es_list = [], es_count = 0\<rparr>, dirOK)"
      let ?m = "embedMatches X root pkgdir all (pid + 1) match ?s0"
      from cp Some have mo: "embedMatchesOf X pkgdir pattern = match"
        by (simp add: embedMatchesOf_def)
      have step: "resolveEmbedLoop X root pkgdir (pattern # rest) pid hav dirOK pmap =
          bind ?m (\<lambda>(st, dirOK1).
                    if es_list st = [] then Fail (EmbedError ''no matching files found'')
                    else resolveEmbedLoop X root pkgdir rest (pid + 1) (es_have st) dirOK1
                           (AList.update pattern (sort (es_list st)) pmap))"
        using cp valid Some by simp
      show ?thesis
      proof (cases "embedMatchesOf X pkgdir pattern = [] \<or> emptyDirMatch X root pkgdir pattern")
        case True
        then show ?thesis
        proof
          assume "embedMatchesOf X pkgdir pattern = []"
          with mo have "match = []" by simp
          then show ?thesis unfolding step by simp
        next
          assume "emptyDirMatch X root pkgdir pattern"
          with mo cp have "list_ex (emptyDirAt X root all) match"
            by (simp add: emptyDirMatch_def)
          from embedMatches_emptyDir[OF this, of pkgdir "pid + 1" ?s0]
          obtain e where "?m = Fail e" ..
          then show ?thesis unfolding step by simp
        qed
      next
        case False
        with Cons.prems have later: "list_ex (\<lambda>pattern. embedMatchesOf X pkgdir pattern = []
            \<or> emptyDirMatch X root pkgdir pattern) rest"
          by simp
        from embedMatches_finishes[of X root pkgdir all "pid + 1" match ?s0] show ?thesis
        proof
          assume "\<exists>e. ?m = Fail e"
          then obtain e where "?m = Fail e" ..
          then show ?thesis unfolding step by simp
        next
          assume "\<exists>t. ?m = Return t"
          then obtain st dirOK1 where m: "?m = Return (st, dirOK1)" by force
          from Cons.IH[OF later, of "pid + 1" "es_have st" dirOK1 "AList.update pattern (sort (es_list st)) pmap"]
          show ?thesis unfolding step m by auto
        qed
      qed
    qed
  qed
qed


lemma importLoop_append:
  "importLoop rec n X root dir (imps1 @ imps2) pc
     = bind (importLoop rec n X root dir imps1 pc) (importLoop rec n X root dir imps2)"
proof (induction imps1 arbitrary: pc)
  case Nil
  show ?case by simp
next
  case (Cons imp imps1)
  show ?case
  proof (cases "stdlibPackageRE imp")
    case True
    then show ?thesis using Cons.IH by simp
  next
    case False
    show ?thesis
    proof (cases "resolveImport n X root pc dir (stripPackageQuotes imp)")
      case (Return r)
      obtain d l pc1 where r: "r = ((d, l), pc1)" by (metis prod.exhaust)
      show ?thesis
      proof (cases l)
        case True
        then show ?thesis using False Return r Cons.IH by (cases "rec pc1 d") simp_all
      next
        case l: False
        then show ?thesis using False Return r Cons.IH by simp
      qed
    qed (simp_all add: False)
  qed
qed

lemma packageEntries_append:
  "packageEntries rec n X root dir (des1 @ des2) s
     = bind (packageEntries rec n X root dir des1 s) (packageEntries rec n X root dir des2)"
proof (induction des1 arbitrary: s)
  case Nil
  show ?case by simp
next
  case (Cons de des1)
  show ?case using Cons.IH by (cases "packageEntry rec n X root dir de s") simp_all
qed

text \<open>A failure of the recursive call, at whatever import of whatever file of the
  directory, is the result of the loop over the imports, of the loop body over the
  entries, and of the loop over the entries.\<close>

lemma importLoop_hands_on:
  assumes "importLoop rec n X root dir imps1 pc = Return pca"
    and "\<not> stdlibPackageRE imp"
    and "resolveImport n X root pca dir (stripPackageQuotes imp) = Return ((d, True), pcb)"
    and "rec pcb d = Fail e"
  shows "importLoop rec n X root dir (imps1 @ imp # imps2) pc = Fail e"
  using assms by (simp add: importLoop_append)

lemma packageEntry_hands_on:
  assumes "packageFile name" and "hasSuffix name ''.go''"
    and "addChecksum X root pc (filepath_Join [dir, name]) = Return pca"
    and "os_ReadFile root (filepath_Join [dir, name]) = Inr src"
    and "parser_ParseFile X src = Some gf"
    and "importLoop rec n X root dir (gf_Imports gf) pca = Fail e"
  shows "packageEntry rec n X root dir (name, ModeRegular) (pc, embedPatterns) = Fail e"
  using assms by (simp add: packageEntry_def)

lemma packageEntries_hands_on:
  assumes "packageEntries rec n X root dir des1 s = Return sa"
    and "packageEntry rec n X root dir de sa = Fail e"
  shows "packageEntries rec n X root dir (des1 @ de # des2) s = Fail e"
  using assms by (simp add: packageEntries_append)

lemma parsePackage_hands_on:
  assumes "\<not> lookupBool (pc_packages pc) dir"
    and "findModule (Suc n) X root (pc\<lparr>pc_packages := AList.update dir True (pc_packages pc)\<rparr>) dir
           = Return (info, pca)"
    and "os_ReadDir root dir = Inr des"
    and "packageEntries (\<lambda>pc' d. parsePackage n X root pc' d) (Suc n) X root dir des (pca, []) = Fail e"
  shows "parsePackage (Suc n) X root pc dir = Fail e"
  using assms by simp

text \<open>
  C9.  If one of the patterns matches no file, or matches a directory without
  eligible files, \<^verbatim>\<open>resolveEmbed\<close> returns an error (a result that holds no file
  list).  \<^verbatim>\<open>parsePackage\<close> returns the error of \<^verbatim>\<open>resolveEmbed\<close> as its own.  When
  the package is an imported one, the \<^verbatim>\<open>parsePackage\<close> of the importing package
  returns the error of the recursive call as its own: whatever entries of the
  directory and whatever imports of the file were gone through before the import,
  the error goes through the loop over the imports, the loop body, the loop over
  the entries and \<^verbatim>\<open>parsePackage\<close>, and so on up to the outermost package.
  \<^verbatim>\<open>checksum\<close> returns the error of the outermost \<^verbatim>\<open>parsePackage\<close> instead of a
  digest.
\<close>

theorem resolveEmbed_no_match_is_fatal:
  "((\<exists>pattern \<in> set patterns.
        embedMatchesOf X pkgdir pattern = [] \<or> emptyDirMatch X root pkgdir pattern)
      \<longrightarrow> (\<exists>e. resolveEmbed X root pkgdir patterns = Fail e))
   \<and> (\<not> lookupBool (pc_packages pc) dir
       \<and> findModule (Suc n) X root (pc\<lparr>pc_packages := AList.update dir True (pc_packages pc)\<rparr>) dir
            = Return (info, pc1)
       \<and> os_ReadDir root dir = Inr des
       \<and> packageEntries (\<lambda>pc' d. parsePackage n X root pc' d) (Suc n) X root dir des (pc1, [])
            = Return (pc2, embedPatterns)
       \<and> resolveEmbed X root dir embedPatterns = Fail e
      \<longrightarrow> parsePackage (Suc n) X root pc dir = Fail e)
   \<and> (\<not> lookupBool (pc_packages qc) importer
       \<and> findModule (Suc k) X root (qc\<lparr>pc_packages := AList.update importer True (pc_packages qc)\<rparr>) importer
            = Return (importerInfo, qc1)
       \<and> os_ReadDir root importer = Inr (des1 @ (name, ModeRegular) # des2)
       \<and> packageEntries (\<lambda>pc' d. parsePackage k X root pc' d) (Suc k) X root importer des1 (qc1, [])
            = Return (qc2, found)
       \<and> packageFile name \<and> hasSuffix name ''.go''
       \<and> addChecksum X root qc2 (filepath_Join [importer, name]) = Return qc3
       \<and> os_ReadFile root (filepath_Join [importer, name]) = Inr src
       \<and> parser_ParseFile X src = Some gf
       \<and> gf_Imports gf = imps1 @ imp # imps2
       \<and> importLoop (\<lambda>pc' d. parsePackage k X root pc' d) (Suc k) X root importer imps1 qc3 = Return qc4
       \<and> \<not> stdlibPackageRE imp
       \<and> resolveImport (Suc k) X root qc4 importer (stripPackageQuotes imp) = Return ((d, True), qc5)
       \<and> parsePackage k X root qc5 d = Fail e'
      \<longrightarrow> parsePackage (Suc k) X root qc importer = Fail e')
   \<and> (parsePackage m X root \<lparr>checksums = [], pc_packages = [], modules = []\<rparr> (filepath_Abs pkg) = Fail e''
      \<longrightarrow> checksum m X render root pkg flags env = Fail e'')"
proof (intro conjI impI)
  assume "\<exists>pattern \<in> set patterns.
        embedMatchesOf X pkgdir pattern = [] \<or> emptyDirMatch X root pkgdir pattern"
  then have "list_ex (\<lambda>pattern. embedMatchesOf X pkgdir pattern = []
      \<or> emptyDirMatch X root pkgdir pattern) patterns"
    by (simp add: list_ex_iff)
  from resolveEmbedLoop_fatal[OF this]
  show "\<exists>e. resolveEmbed X root pkgdir patterns = Fail e"
    by (simp add: resolveEmbed_def)
next
  assume "\<not> lookupBool (pc_packages pc) dir
       \<and> findModule (Suc n) X root (pc\<lparr>pc_packages := AList.update dir True (pc_packages pc)\<rparr>) dir
            = Return (info, pc1)
       \<and> os_ReadDir root dir = Inr des
       \<and> packageEntries (\<lambda>pc' d. parsePackage n X root pc' d) (Suc n) X root dir des (pc1, [])
            = Return (pc2, embedPatterns)
       \<and> resolveEmbed X root dir embedPatterns = Fail e"
  then show "parsePackage (Suc n) X root pc dir = Fail e" by simp
next
  let ?rec = "\<lambda>pc' d. parsePackage k X root pc' d"
  assume h: "\<not> lookupBool (pc_packages qc) importer
       \<and> findModule (Suc k) X root (qc\<lparr>pc_packages := AList.update importer True (pc_packages qc)\<rparr>) importer
            = Return (importerInfo, qc1)
       \<and> os_ReadDir root importer = Inr (des1 @ (name, ModeRegular) # des2)
       \<and> packageEntries ?rec (Suc k) X root importer des1 (qc1, []) = Return (qc2, found)
       \<and> packageFile name \<and> hasSuffix name ''.go''
       \<and> addChecksum X root qc2 (filepath_Join [importer, name]) = Return qc3
       \<and> os_ReadFile root (filepath_Join [importer, name]) = Inr src
       \<and> parser_ParseFile X src = Some gf
       \<and> gf_Imports gf = imps1 @ imp # imps2
       \<and> importLoop ?rec (Suc k) X root importer imps1 qc3 = Return qc4
       \<and> \<not> stdlibPackageRE imp
       \<and> resolveImport (Suc k) X root qc4 importer (stripPackageQuotes imp) = Return ((d, True), qc5)
       \<and> parsePackage k X root qc5 d = Fail e'"
  then have "importLoop ?rec (Suc k) X root importer (imps1 @ imp # imps2) qc3 = Fail e'"
    by (intro importLoop_hands_on[where pca = qc4 and pcb = qc5 and d = d]) simp_all
  with h have "importLoop ?rec (Suc k) X root importer (gf_Imports gf) qc3 = Fail e'" by simp
  with h have "packageEntry ?rec (Suc k) X root importer (name, ModeRegular) (qc2, found) = Fail e'"
    by (intro packageEntry_hands_on[where pca = qc3 and src = src and gf = gf]) simp_all
  with h have "packageEntries ?rec (Suc k) X root importer (des1 @ (name, ModeRegular) # des2) (qc1, [])
      = Fail e'"
    by (intro packageEntries_hands_on[where sa = "(qc2, found)"]) simp_all
  with h show "parsePackage (Suc k) X root qc importer = Fail e'"
    by (intro parsePackage_hands_on[where info = importerInfo and pca = qc1
          and des = "des1 @ (name, ModeRegular) # des2"]) simp_all
next
  assume "parsePackage m X root \<lparr>checksums = [], pc_packages = [], modules = []\<rparr> (filepath_Abs pkg) = Fail e''"
  then show "checksum m X render root pkg flags env = Fail e''"
    by (simp add: checksum_def packageSourceChecksums_def)
qed

text \<open>The theorem at the module of \<^verbatim>\<open>/q\<close>: the package \<^verbatim>\<open>/q/sub\<close> has the
  directive \<^verbatim>\<open>//go:embed assets\<close>, which names a directory that holds a hidden file
  only, and \<^verbatim>\<open>/q/main.go\<close> imports that package after \<^verbatim>\<open>fmt\<close>.  The error of
  \<^verbatim>\<open>resolveEmbed\<close> in \<^verbatim>\<open>/q/sub\<close> is the result of \<^verbatim>\<open>checksum\<close> for \<^verbatim>\<open>/q\<close>.\<close>

theorem resolveEmbed_no_match_is_fatal_witness:
  "(\<exists>e. resolveEmbed nestedEmbed_externals nestedEmbed_root ''/q/sub'' [''assets''] = Fail e)
   \<and> parsePackage 2 nestedEmbed_externals nestedEmbed_root nestedEmbed_hashed ''/q/sub''
        = Fail (EmbedError ''contains no embeddable files'')
   \<and> parsePackage 3 nestedEmbed_externals nestedEmbed_root emptyContext ''/q''
        = Fail (EmbedError ''contains no embeddable files'')
   \<and> checksum 3 nestedEmbed_externals renderPlain nestedEmbed_root ''/q'' [] []
        = Fail (EmbedError ''contains no embeddable files'')"
proof -
  let ?X = nestedEmbed_externals and ?root = nestedEmbed_root
  let ?e = "EmbedError ''contains no embeddable files''"
  let ?fmt = "[dquote] @ ''fmt'' @ [dquote]"
  let ?lit = "[dquote] @ ''example.com/q/sub'' @ [dquote]"
  note T = resolveEmbed_no_match_is_fatal[where patterns = "[''assets'']" and X = ?X
      and pkgdir = "''/q/sub''" and root = ?root
      and pc = nestedEmbed_hashed and dir = "''/q/sub''" and n = 1 and info = nestedEmbed_info
      and ?pc1.0 = nestedEmbed_subFound and des = "[(''assets'', ModeDir), (''sub.go'', ModeRegular)]"
      and ?pc2.0 = nestedEmbed_subScanned and embedPatterns = "[''assets'']" and e = ?e
      and qc = emptyContext and importer = "''/q''" and k = 2 and importerInfo = nestedEmbed_info
      and ?qc1.0 = nestedEmbed_found and ?des1.0 = "[(''go.mod'', ModeRegular)]" and name = "''main.go''"
      and ?des2.0 = "[(''sub'', ModeDir)]" and ?qc2.0 = nestedEmbed_found and found = "[]"
      and ?qc3.0 = nestedEmbed_hashed and src = nestedEmbed_main and gf = nestedEmbed_mainFile
      and ?imps1.0 = "[?fmt]" and imp = ?lit and ?imps2.0 = "[]" and ?qc4.0 = nestedEmbed_hashed
      and d = "''/q/sub''" and ?qc5.0 = nestedEmbed_hashed and e' = ?e
      and m = 3 and pkg = "''/q''" and e'' = ?e and render = renderPlain and flags = "[]" and env = "[]"]
  have a: "emptyDirMatch ?X ?root ''/q/sub'' ''assets''" by code_simp
  then have a': "\<exists>pattern \<in> set [''assets''].
        embedMatchesOf ?X ''/q/sub'' pattern = [] \<or> emptyDirMatch ?X ?root ''/q/sub'' pattern"
    by simp
  have b1: "\<not> lookupBool (pc_packages nestedEmbed_hashed) ''/q/sub''" by code_simp
  have b2: "findModule (Suc 1) ?X ?root
              (nestedEmbed_hashed\<lparr>pc_packages := AList.update ''/q/sub'' True (pc_packages nestedEmbed_hashed)\<rparr>)
              ''/q/sub'' = Return (nestedEmbed_info, nestedEmbed_subFound)"
    by code_simp
  have b3: "os_ReadDir ?root ''/q/sub'' = Inr [(''assets'', ModeDir), (''sub.go'', ModeRegular)]"
    by code_simp
  have b4: "packageEntries (\<lambda>pc' d. parsePackage 1 ?X ?root pc' d) (Suc 1) ?X ?root ''/q/sub''
              [(''assets'', ModeDir), (''sub.go'', ModeRegular)] (nestedEmbed_subFound, [])
              = Return (nestedEmbed_subScanned, [''assets''])"
    by code_simp
  have b5: "resolveEmbed ?X ?root ''/q/sub'' [''assets''] = Fail ?e" by code_simp
  from T a' have r1: "\<exists>e. resolveEmbed ?X ?root ''/q/sub'' [''assets''] = Fail e" by blast
  from T b1 b2 b3 b4 b5 have "parsePackage (Suc 1) ?X ?root nestedEmbed_hashed ''/q/sub'' = Fail ?e"
    by blast
  then have r2: "parsePackage 2 ?X ?root nestedEmbed_hashed ''/q/sub'' = Fail ?e"
    by (simp add: numeral_2_eq_2)
  have c1: "\<not> lookupBool (pc_packages emptyContext) ''/q''" by code_simp
  have c2: "findModule (Suc 2) ?X ?root
              (emptyContext\<lparr>pc_packages := AList.update ''/q'' True (pc_packages emptyContext)\<rparr>) ''/q''
              = Return (nestedEmbed_info, nestedEmbed_found)"
    by code_simp
  have c3: "os_ReadDir ?root ''/q''
              = Inr ([(''go.mod'', ModeRegular)] @ (''main.go'', ModeRegular) # [(''sub'', ModeDir)])"
    by code_simp
  have c4: "packageEntries (\<lambda>pc' d. parsePackage 2 ?X ?root pc' d) (Suc 2) ?X ?root ''/q''
              [(''go.mod'', ModeRegular)] (nestedEmbed_found, []) = Return (nestedEmbed_found, [])"
    by code_simp
  have c5: "packageFile ''main.go'' \<and> hasSuffix ''main.go'' ''.go''" by code_simp
  have c6: "addChecksum ?X ?root nestedEmbed_found (filepath_Join [''/q'', ''main.go''])
              = Return nestedEmbed_hashed"
    by code_simp
  have c7: "os_ReadFile ?root (filepath_Join [''/q'', ''main.go'']) = Inr nestedEmbed_main"
    by code_simp
  have c8: "parser_ParseFile ?X nestedEmbed_main = Some nestedEmbed_mainFile" by code_simp
  have c9: "gf_Imports nestedEmbed_mainFile = [?fmt] @ ?lit # []" by code_simp
  have c10: "importLoop (\<lambda>pc' d. parsePackage 2 ?X ?root pc' d) (Suc 2) ?X ?root ''/q'' [?fmt]
               nestedEmbed_hashed = Return nestedEmbed_hashed"
    by code_simp
  have c11: "\<not> stdlibPackageRE ?lit" by code_simp
  have c12: "resolveImport (Suc 2) ?X ?root nestedEmbed_hashed ''/q'' (stripPackageQuotes ?lit)
               = Return ((''/q/sub'', True), nestedEmbed_hashed)"
    by code_simp
  from T c1 c2 c3 c4 c5 c6 c7 c8 c9 c10 c11 c12 r2
  have "parsePackage (Suc 2) ?X ?root emptyContext ''/q'' = Fail ?e"
    by blast
  then have r3: "parsePackage 3 ?X ?root emptyContext ''/q'' = Fail ?e"
    by (simp add: numeral_3_eq_3)
  have d0: "filepath_Abs ''/q'' = ''/q''" by code_simp
  from r3 have d1: "parsePackage 3 ?X ?root \<lparr>checksums = [], pc_packages = [], modules = []\<rparr>
      (filepath_Abs ''/q'') = Fail ?e"
    by (simp add: d0 emptyContext_def)
  from T d1 have r4: "checksum 3 ?X renderPlain ?root ''/q'' [] [] = Fail ?e" by blast
  from r1 r2 r3 r4 show ?thesis by blast
qed

section \<open>Retention in the cache store\<close>

text \<open>A list with distinct keys has one sorted arrangement only.\<close>

lemma properties_for_distinct_sort_key:
  assumes m: "mset zs = mset xs" and s: "sorted (map f zs)" and d: "distinct (map f xs)"
  shows "sort_key f xs = zs"
proof (rule properties_for_sort_key[OF m _ s])
  from m have "mset (map f zs) = mset (map f xs)" by simp
  with d have dz: "distinct (map f zs)" by (metis mset_eq_imp_distinct_iff)
  fix k
  assume kz: "k \<in> set zs"
  with m have kx: "k \<in> set xs" by (metis mset_eq_setD)
  show "filter (\<lambda>x. f k = f x) zs = filter (\<lambda>x. f k = f x) xs"
    by (simp add: filter_same_key[OF dz kz] filter_same_key[OF d kx])
qed


lemma sort_key_snoc_max:
  assumes "distinct (map f (xs @ [x]))" and "\<forall>y \<in> set xs. f y \<le> f x"
  shows "sort_key f (xs @ [x]) = sort_key f xs @ [x]"
proof (rule properties_for_distinct_sort_key[OF _ _ assms(1)])
  show "mset (sort_key f xs @ [x]) = mset (xs @ [x])" by simp
  show "sorted (map f (sort_key f xs @ [x]))"
    using assms(2) by (simp add: sorted_append)
qed

lemma mset_AList_update:
  "distinct (map fst fs) \<Longrightarrow>
   mset (AList.update c t fs) = mset (filter (\<lambda>e. fst e \<noteq> c) fs @ [(c, t)])"
proof (induction fs)
  case Nil
  then show ?case by simp
next
  case (Cons e fs)
  obtain k v where e: "e = (k, v)" by (cases e)
  show ?case
  proof (cases "k = c")
    case True
    with Cons.prems e have "c \<notin> fst ` set fs" by simp
    then have "filter (\<lambda>e. fst e \<noteq> c) fs = fs"
      by (auto simp: filter_id_conv)
    with True e show ?thesis by simp
  next
    case False
    with Cons e show ?thesis by simp
  qed
qed

lemma filter_take_names:
  assumes "distinct (map fst V)"
  shows "filter (\<lambda>e. fst e \<notin> fst ` set (take m V)) V = drop m V"
proof -
  have a: "filter (\<lambda>e. fst e \<notin> fst ` set (take m V)) (take m V) = []"
    by (auto simp: filter_empty_conv)
  from assms have "distinct (map fst (take m V @ drop m V))" by simp
  then have "fst ` set (take m V) \<inter> fst ` set (drop m V) = {}"
    by (simp only: map_append distinct_append set_map)
  then have b: "filter (\<lambda>e. fst e \<notin> fst ` set (take m V)) (drop m V) = drop m V"
    by (auto simp: filter_id_conv)
  have "filter (\<lambda>e. fst e \<notin> fst ` set (take m V)) V
          = filter (\<lambda>e. fst e \<notin> fst ` set (take m V)) (take m V @ drop m V)"
    by simp
  also have "\<dots> = drop m V" unfolding filter_append a b by simp
  finally show ?thesis .
qed

lemma removeEntries_Return:
  "removeEntries rs s = Return s' \<Longrightarrow>
     s' = s\<lparr>cd_files := filter (\<lambda>e. fst e \<notin> fst ` set rs) (cd_files s)\<rparr>"
proof (induction rs arbitrary: s)
  case Nil
  then show ?case by simp
next
  case (Cons r rs)
  obtain fileName mtime where r: "r = (fileName, mtime)" by (cases r)
  let ?s1 = "s\<lparr>cd_files := AList.delete fileName (cd_files s)\<rparr>"
  from Cons.prems r have "removeEntries rs ?s1 = Return s'"
    by (simp split: if_splits)
  from Cons.IH[OF this]
  have s': "s' = s\<lparr>cd_files := filter (\<lambda>e. fst e \<notin> fst ` set rs) (AList.delete fileName (cd_files s))\<rparr>"
    by simp
  have "filter (\<lambda>e. fst e \<notin> fst ` set rs) (AList.delete fileName xs)
          = filter (\<lambda>e. fst e \<notin> fst ` set ((fileName, mtime) # rs)) xs" for xs :: "(string \<times> nat) list"
    unfolding AList.delete_eq by (induction xs) auto
  with s' r show ?case by simp
qed

text \<open>In a well-timed directory the order by modification time does not depend on
  the order in which the directory is listed.\<close>

lemma cacheContents_wellTimed:
  assumes "wellTimed s"
  shows "cacheContents s = sort_key snd (cd_files s)"
  unfolding cacheContents_def
proof (rule properties_for_distinct_sort_key)
  show "mset (sort_key snd (cd_files s)) = mset (sort_key fst (cd_files s))" by simp
  show "sorted (map snd (sort_key snd (cd_files s)))" by simp
  have "mset (map snd (sort_key fst (cd_files s))) = mset (map snd (cd_files s))" by simp
  with assms show "distinct (map snd (sort_key fst (cd_files s)))"
    by (metis mset_eq_imp_distinct_iff wellTimed_def)
qed

lemma wellTimed_open: "wellTimed s \<Longrightarrow> wellTimed (openPackageCacheDir s) \<and> cd_exists (openPackageCacheDir s)
   \<and> cd_files (openPackageCacheDir s) = cd_files s \<and> cd_clock (openPackageCacheDir s) = cd_clock s"
  by (auto simp: wellTimed_def openPackageCacheDir_def)

text \<open>One successful update: of the files ordered by modification time the last two
  are kept (without the one that the build overwrites), and the file built comes
  last.\<close>

lemma sort_key_update_newest:
  assumes dn: "distinct (map fst fs)" and dt: "distinct (map snd fs)"
    and old: "\<forall>e \<in> set fs. snd e < t"
  shows "sort_key snd (AList.update c t fs) = filter (\<lambda>e. fst e \<noteq> c) (sort_key snd fs) @ [(c, t)]"
    and "distinct (map snd (AList.update c t fs))"
    and "\<forall>e \<in> set (AList.update c t fs). snd e < Suc t"
proof -
  define g where "g = filter (\<lambda>e. fst e \<noteq> c) fs"
  have m: "mset (AList.update c t fs) = mset (g @ [(c, t)])"
    unfolding g_def by (rule mset_AList_update[OF dn])
  have sub: "set g \<subseteq> set fs" by (auto simp: g_def)
  with old have oldg: "\<forall>e \<in> set g. snd e < t" by blast
  have "distinct (map snd g)" unfolding g_def using dt by (rule distinct_map_filter)
  moreover have "t \<notin> snd ` set g"
  proof
    assume "t \<in> snd ` set g"
    then obtain e where "e \<in> set g" and "t = snd e" by (rule imageE)
    with oldg show False by (metis less_irrefl)
  qed
  ultimately have dg: "distinct (map snd (g @ [(c, t)]))" by simp
  have le: "\<forall>y \<in> set g. snd y \<le> snd (c, t)"
    using oldg by (metis less_imp_le snd_conv)
  have "sort_key snd (g @ [(c, t)]) = sort_key snd (AList.update c t fs)"
  proof (rule properties_for_distinct_sort_key[OF _ _ dg])
    show "mset (sort_key snd (AList.update c t fs)) = mset (g @ [(c, t)])"
      using m by simp
    show "sorted (map snd (sort_key snd (AList.update c t fs)))" by (rule sorted_sort_key)
  qed
  then have "sort_key snd (AList.update c t fs) = sort_key snd (g @ [(c, t)])" by (rule sym)
  also have "\<dots> = sort_key snd g @ [(c, t)]"
    by (rule sort_key_snoc_max[OF dg le])
  also have "sort_key snd g = filter (\<lambda>e. fst e \<noteq> c) (sort_key snd fs)"
    unfolding g_def by (rule filter_sort[symmetric])
  finally show "sort_key snd (AList.update c t fs)
      = filter (\<lambda>e. fst e \<noteq> c) (sort_key snd fs) @ [(c, t)]" .
  from m have "mset (map snd (AList.update c t fs)) = mset (map snd (g @ [(c, t)]))"
    by (metis mset_map)
  with dg show "distinct (map snd (AList.update c t fs))"
    by (metis mset_eq_imp_distinct_iff)
  from m have "set (AList.update c t fs) = set (g @ [(c, t)])" by (rule mset_eq_setD)
  then have "set (AList.update c t fs) = insert (c, t) (set g)" by simp
  with oldg show "\<forall>e \<in> set (AList.update c t fs). snd e < Suc t"
    by (metis insertE less_Suc_eq snd_conv)
qed

lemma cacheCleanup_keeps_newest:
  assumes wt: "wellTimed s" and ex: "cd_exists s" and cl: "cacheCleanup s = Return s1"
  shows "sort_key snd (cd_files s1) = drop (length (cd_files s) - 2) (sort_key snd (cd_files s))"
    and "distinct (map fst (cd_files s1))" and "distinct (map snd (cd_files s1))"
    and "\<forall>e \<in> set (cd_files s1). snd e < cd_clock s"
    and "cd_clock s1 = cd_clock s" and "cd_exists s1" and "cd_undeletable s1 = cd_undeletable s"
proof -
  define W where "W = sort_key snd (cd_files s)"
  define m where "m = length (cd_files s) - 2"
  define P where "P = (\<lambda>e :: string \<times> nat. fst e \<notin> fst ` set (take m W))"
  have cc: "cacheContents s = W"
    unfolding W_def by (rule cacheContents_wellTimed[OF wt])
  have lW: "length W = length (cd_files s)" by (simp add: W_def)
  from cl ex have "removeEntries (take m W) s = Return s1"
    by (simp add: cacheCleanup_def keepCacheEntriesOnCleanup_def cc lW m_def)
  from removeEntries_Return[OF this]
  have s1: "s1 = s\<lparr>cd_files := filter P (cd_files s)\<rparr>" by (simp add: P_def)
  from wt have dn: "distinct (map fst (cd_files s))" and dt: "distinct (map snd (cd_files s))"
    and old: "\<forall>e \<in> set (cd_files s). snd e < cd_clock s"
    by (auto simp: wellTimed_def list_all_iff)
  have "mset (map fst W) = mset (map fst (cd_files s))" by (simp add: W_def)
  with dn have dW: "distinct (map fst W)" by (metis mset_eq_imp_distinct_iff)
  have "sort_key snd (filter P (cd_files s)) = filter P W"
    unfolding W_def by (rule filter_sort[symmetric])
  also have "\<dots> = drop m W"
    unfolding P_def by (rule filter_take_names[OF dW])
  finally show "sort_key snd (cd_files s1) = drop (length (cd_files s) - 2) (sort_key snd (cd_files s))"
    by (simp add: s1 W_def m_def)
  from dn show "distinct (map fst (cd_files s1))" by (simp add: s1 distinct_map_filter)
  from dt show "distinct (map snd (cd_files s1))" by (simp add: s1 distinct_map_filter)
  from old show "\<forall>e \<in> set (cd_files s1). snd e < cd_clock s" by (simp add: s1)
  show "cd_clock s1 = cd_clock s" by (simp add: s1)
  from ex show "cd_exists s1" by (simp add: s1)
  show "cd_undeletable s1 = cd_undeletable s" by (simp add: s1)
qed

text \<open>One successful update: of the files ordered by modification time the last two
  are kept (without the one that the build overwrites), and the file built comes
  last.\<close>

lemma updateCache_step:
  assumes wt: "wellTimed s" and ok: "updateCache s c True = Return (u, s')"
  shows "wellTimed s' \<and> cd_exists s' \<and> cd_clock s' = Suc (cd_clock s)
       \<and> sort_key snd (cd_files s')
           = filter (\<lambda>e. fst e \<noteq> c)
               (drop (length (cd_files s) - 2) (sort_key snd (cd_files s))) @ [(c, cd_clock s)]"
proof -
  define s0 where "s0 = openPackageCacheDir s"
  from wellTimed_open[OF wt] have wt0: "wellTimed s0" and ex0: "cd_exists s0"
    and f0: "cd_files s0 = cd_files s" and c0: "cd_clock s0 = cd_clock s"
    by (auto simp: s0_def)
  from ok obtain s1 where cl: "cacheCleanup s0 = Return s1" and b: "build s1 c True = (u, s')"
    by (auto simp: updateCache_def bind_eq_Return s0_def)
  note k = cacheCleanup_keeps_newest[OF wt0 ex0 cl]
  from b have s': "s' = s1\<lparr>cd_files := AList.update c (cd_clock s1) (cd_files s1),
                            cd_clock := Suc (cd_clock s1)\<rparr>"
    by (simp add: build_def)
  have old1: "\<forall>e \<in> set (cd_files s1). snd e < cd_clock s1"
    using k(4) k(5) by simp
  note n = sort_key_update_newest[OF k(2) k(3) old1, of c]
  have "distinct (map fst (cd_files s'))"
    unfolding s' using k(2) by (simp add: distinct_update)
  moreover have "distinct (map snd (cd_files s'))"
    unfolding s' using n(2) by simp
  moreover have "\<forall>e \<in> set (cd_files s'). snd e < cd_clock s'"
    unfolding s' using n(3) by simp
  moreover have e': "cd_exists s'" unfolding s' using k(6) by simp
  ultimately have "wellTimed s'" by (simp add: wellTimed_def list_all_iff)
  moreover have "cd_clock s' = Suc (cd_clock s)" unfolding s' using k(5) c0 by simp
  moreover have "sort_key snd (cd_files s')
           = filter (\<lambda>e. fst e \<noteq> c)
               (drop (length (cd_files s) - 2) (sort_key snd (cd_files s))) @ [(c, cd_clock s)]"
    unfolding s' using n(1) k(1) k(5) f0 c0 by simp
  ultimately show ?thesis using e' by blast
qed

lemma updates_append: "updates s (xs @ ys) = bind (updates s xs) (\<lambda>s1. updates s1 ys)"
proof (induction xs arbitrary: s)
  case Nil
  then show ?case by simp
next
  case (Cons c xs)
  show ?case
    by (cases "updateCache s c True") (auto simp: Cons)
qed

lemma updates_wellTimed:
  "wellTimed s \<Longrightarrow> updates s cs = Return s' \<Longrightarrow> wellTimed s'"
proof (induction cs arbitrary: s)
  case Nil
  then show ?case by simp
next
  case (Cons c cs)
  from Cons.prems(2) obtain u s1 where u: "updateCache s c True = Return (u, s1)"
    and r: "updates s1 cs = Return s'"
    by (auto simp: bind_eq_Return)
  from updateCache_step[OF Cons.prems(1) u] have "wellTimed s1" by blast
  from Cons.IH[OF this r] show ?case .
qed

text \<open>Three successful updates in a row, for three different checksums, leave
  exactly the three files built, whatever the directory held before.\<close>

lemma three_updates:
  assumes wt: "wellTimed s" and r: "updates s [a, b, c] = Return s'"
    and ab: "a \<noteq> b" and bc: "b \<noteq> c" and ac: "a \<noteq> c"
  shows "sort_key snd (cd_files s')
           = [(a, cd_clock s), (b, Suc (cd_clock s)), (c, Suc (Suc (cd_clock s)))]"
proof -
  from r obtain u1 s1 u2 s2 u3 where
    1: "updateCache s a True = Return (u1, s1)" and
    2: "updateCache s1 b True = Return (u2, s2)" and
    3: "updateCache s2 c True = Return (u3, s')"
    by (auto simp: bind_eq_Return)
  define X where "X = filter (\<lambda>e. fst e \<noteq> a) (drop (length (cd_files s) - 2) (sort_key snd (cd_files s)))"
  from updateCache_step[OF wt 1] have wt1: "wellTimed s1" and c1: "cd_clock s1 = Suc (cd_clock s)"
    and W1: "sort_key snd (cd_files s1) = X @ [(a, cd_clock s)]"
    by (auto simp: X_def)
  have l1: "length (cd_files s1) = Suc (length X)"
    using arg_cong[OF W1, of length] by simp
  define Y where "Y = filter (\<lambda>e. fst e \<noteq> b) (drop (length X - 1) X)"
  from updateCache_step[OF wt1 2] have wt2: "wellTimed s2" and c2: "cd_clock s2 = Suc (cd_clock s1)"
    and W2': "sort_key snd (cd_files s2)
        = filter (\<lambda>e. fst e \<noteq> b) (drop (length (cd_files s1) - 2) (sort_key snd (cd_files s1)))
          @ [(b, cd_clock s1)]"
    by auto
  have W2: "sort_key snd (cd_files s2) = Y @ [(a, cd_clock s), (b, Suc (cd_clock s))]"
    unfolding W2' W1 l1 c1 Y_def using ab by simp
  have l2: "length (cd_files s2) = Suc (Suc (length Y))"
    using arg_cong[OF W2, of length] by simp
  from updateCache_step[OF wt2 3]
  have "sort_key snd (cd_files s')
        = filter (\<lambda>e. fst e \<noteq> c) (drop (length (cd_files s2) - 2) (sort_key snd (cd_files s2)))
          @ [(c, cd_clock s2)]"
    by auto
  then show ?thesis
    unfolding W2 l2 c2 c1 using ac bc by simp
qed

text \<open>
  C1, as the code has it.  Start from a well-timed cache directory and let more
  than two updates succeed one after the other, each for a checksum of its own.
  Then exactly three entries remain in the directory: the last three built, which
  are the three modified most recently.  (\<^verbatim>\<open>cacheCleanup\<close> runs before the build and
  keeps two entries; the build then adds the third.)
\<close>

theorem updateCache_keeps_three:
  assumes "wellTimed s" and "distinct cs" and "2 < length cs" and "updates s cs = Return s'"
  shows "map fst (sort_key snd (cd_files s')) = drop (length cs - 3) cs
       \<and> length (cd_files s') = 3"
proof -
  define pre where "pre = take (length cs - 3) cs"
  define post where "post = drop (length cs - 3) cs"
  have cs: "cs = pre @ post" by (simp add: pre_def post_def)
  from assms(3) have "length post = 3" by (simp add: post_def)
  then obtain a b c where post: "post = [a, b, c]"
    by (auto simp: length_Suc_conv numeral_3_eq_3)
  from assms(2) cs post have d: "a \<noteq> b" "b \<noteq> c" "a \<noteq> c" by auto
  from assms(4) cs obtain s0 where p: "updates s pre = Return s0" and q: "updates s0 post = Return s'"
    by (auto simp: updates_append bind_eq_Return)
  from updates_wellTimed[OF assms(1) p] have wt0: "wellTimed s0" .
  from three_updates[OF wt0 q[unfolded post] d]
  have W: "sort_key snd (cd_files s')
           = [(a, cd_clock s0), (b, Suc (cd_clock s0)), (c, Suc (Suc (cd_clock s0)))]" .
  then have "map fst (sort_key snd (cd_files s')) = post" by (simp add: post)
  moreover from arg_cong[OF W, of length] have "length (cd_files s') = 3" by simp
  ultimately show ?thesis by (simp add: post_def)
qed

text \<open>The theorem at four updates of a cache that did not exist.\<close>

theorem updateCache_keeps_three_witness:
  "wellTimed noCache \<and> distinct [''f1'', ''f2'', ''f3'', ''f4''] \<and> 2 < length [''f1'', ''f2'', ''f3'', ''f4'']
   \<and> updates noCache [''f1'', ''f2'', ''f3'', ''f4'']
       = Return \<lparr>cd_exists = True, cd_files = [(''f2'', 1), (''f3'', 2), (''f4'', 3)],
                 cd_clock = 4, cd_undeletable = []\<rparr>
   \<and> map fst (sort_key snd [(''f2'', 1), (''f3'', 2), (''f4'', 3 :: nat)]) = [''f2'', ''f3'', ''f4'']
   \<and> length [(''f2'', 1), (''f3'', 2), (''f4'', 3 :: nat)] = 3"
proof -
  have w: "wellTimed noCache" by (simp add: wellTimed_def noCache_def)
  have d: "distinct [''f1'', ''f2'', ''f3'', ''f4'']" by simp
  have l: "2 < length [''f1'', ''f2'', ''f3'', ''f4'']" by simp
  have u: "updates noCache [''f1'', ''f2'', ''f3'', ''f4'']
       = Return \<lparr>cd_exists = True, cd_files = [(''f2'', 1), (''f3'', 2), (''f4'', 3)],
                 cd_clock = 4, cd_undeletable = []\<rparr>"
    by code_simp
  from updateCache_keeps_three[OF w d l u] w d l u show ?thesis by simp
qed

text \<open>C1 as the specification words it fails: after three updates of a cache
  that did not exist, three entries remain, not two.\<close>

theorem updateCache_three_entries_counterexample:
  "updates noCache [''f1'', ''f2'', ''f3'']
     = Return \<lparr>cd_exists = True, cd_files = [(''f1'', 0), (''f2'', 1), (''f3'', 2)],
               cd_clock = 3, cd_undeletable = []\<rparr>
   \<and> length [(''f1'', 0 :: nat), (''f2'', 1), (''f3'', 2)] \<noteq> 2"
  by code_simp

end
